theory Spec2Isabelle
  imports Complex_Main "HOL-Library.AList"
begin

section \<open>JavaScript values and containers\<close>

text \<open>
  A JavaScript \<^verbatim>\<open>Map\<close> iterates in insertion order, \<^verbatim>\<open>set\<close> on a key that is present
  replaces the value where it stands and \<^verbatim>\<open>set\<close> on a new key appends. An association
  list with the update and delete of \<open>AList\<close> has exactly this behaviour; the empty
  \<^verbatim>\<open>Map\<close> is the empty list.
\<close>

type_synonym ('k, 'v) js_map = "('k \<times> 'v) list"

definition Map_get :: "('k, 'v) js_map \<Rightarrow> 'k \<Rightarrow> 'v option" where
  "Map_get m k = map_of m k"

definition Map_set :: "('k, 'v) js_map \<Rightarrow> 'k \<Rightarrow> 'v \<Rightarrow> ('k, 'v) js_map" where
  "Map_set m k v = AList.update k v m"

definition Map_delete :: "('k, 'v) js_map \<Rightarrow> 'k \<Rightarrow> ('k, 'v) js_map" where
  "Map_delete m k = AList.delete k m"

text \<open>
  Strings are lists of code units below 256. \<open>trim\<close> removes the white space and line
  terminators of that range from both ends; \<open>digitsOnly\<close> is
  \<^verbatim>\<open>s.replace(/[^0-9]/g, "")\<close>; \<open>String_of_nat\<close> is the decimal text a template
  literal gives a non-negative integer.
\<close>

definition isWhiteSpace :: "char \<Rightarrow> bool" where
  "isWhiteSpace c = ((of_char c :: nat) \<in> {9, 10, 11, 12, 13, 32, 160})"

definition trim :: "string \<Rightarrow> string" where
  "trim s = rev (dropWhile isWhiteSpace (rev (dropWhile isWhiteSpace s)))"

definition isDigit :: "char \<Rightarrow> bool" where
  "isDigit c = (48 \<le> (of_char c :: nat) \<and> (of_char c :: nat) \<le> 57)"

definition digitsOnly :: "string \<Rightarrow> string" where
  "digitsOnly s = filter isDigit s"

definition consFirst :: "char \<Rightarrow> string list \<Rightarrow> string list" where
  "consFirst c ls = (case ls of [] \<Rightarrow> [[c]] | l # rest \<Rightarrow> (c # l) # rest)"

fun splitLF :: "string \<Rightarrow> string list" where
  "splitLF [] = [[]]"
| "splitLF (c # cs) =
     (if c = CHR 0x0A then [] # splitLF cs else consFirst c (splitLF cs))"

fun splitCRLF :: "string \<Rightarrow> string list" where
  "splitCRLF [] = [[]]"
| "splitCRLF [c] = (if c = CHR 0x0A then [[], []] else [[c]])"
| "splitCRLF (c # d # cs) =
     (if c = CHR 0x0A then [] # splitCRLF (d # cs)
      else if c = CHR 0x0D \<and> d = CHR 0x0A then [] # splitCRLF cs
      else consFirst c (splitCRLF (d # cs)))"

function String_of_nat :: "nat \<Rightarrow> string" where
  "String_of_nat n =
     (if n < 10 then [char_of (48 + n)]
      else String_of_nat (n div 10) @ [char_of (48 + n mod 10)])"
  by pat_completeness auto
termination
  by (relation "measure id") auto

section \<open>The simulation server (server.js)\<close>

text \<open>
  The second program of the repository keeps one \<^verbatim>\<open>simulation\<close> object and a capped
  \<^verbatim>\<open>logs\<close> array, both written to disk as JSON after every change. The \<open>delay\<close> field
  is a number; \<open>None\<close> stands for \<^verbatim>\<open>NaN\<close> (which JSON writes as \<^verbatim>\<open>null\<close>), the two
  values the program cannot tell apart. \<open>filePath\<close>, \<open>lastSentAt\<close> and \<open>number\<close> are
  \<^verbatim>\<open>null\<close> when \<open>None\<close>. Times are the milliseconds \<^verbatim>\<open>new Date()\<close> reads.
\<close>

record simulation =
  running :: bool
  targetType :: string
  targetValue :: string
  delay :: "int option"
  prefix :: string
  sessionId :: string
  uptime :: nat
  filePath :: "string option"
  totalLines :: nat
  currentIndex :: nat
  linesPreview :: "string list"
  lastSentAt :: "nat option"
  number :: "string option"

datatype logBody =
    SimulatedSend string string string nat
  | ReadError string
  | PairLog "string option" int

text \<open>A stored log object is \<^verbatim>\<open>{ time: ..., ...entry }\<close>: the time and the entry.\<close>

type_synonym logObject = "nat \<times> logBody"

text \<open>
  The disk maps a path to the text of the file. \<^verbatim>\<open>JSON.stringify\<close> and
  \<^verbatim>\<open>JSON.parse\<close> belong to the runtime, not to the repository: the program's functions
  take them as parameters (\<open>None\<close> from a parser is the exception \<^verbatim>\<open>JSON.parse\<close>
  throws). Whether a write succeeds is decided by the environment, per path.
\<close>

type_synonym disk = "string \<Rightarrow> string option"

record json =
  stringifyState :: "simulation \<Rightarrow> string"
  parseState :: "string \<Rightarrow> simulation option"
  stringifyLogs :: "logObject list \<Rightarrow> string"
  parseLogs :: "string \<Rightarrow> logObject list option"

record simServer =
  simulation :: simulation
  logs :: "logObject list"
  loopTimer :: "int option"
  files :: disk

definition SESSIONS_FILE :: string where
  "SESSIONS_FILE = ''sessions.json''"

definition LOGS_FILE :: string where
  "LOGS_FILE = ''logs.json''"

definition loadJson :: "(string \<Rightarrow> 'a option) \<Rightarrow> disk \<Rightarrow> string \<Rightarrow> 'a \<Rightarrow> 'a" where
  "loadJson parse fs path defaultValue =
     (case fs path of
        None \<Rightarrow> defaultValue
      | Some txt \<Rightarrow> (case parse txt of None \<Rightarrow> defaultValue | Some v \<Rightarrow> v))"

definition saveJson :: "('a \<Rightarrow> string) \<Rightarrow> bool \<Rightarrow> disk \<Rightarrow> string \<Rightarrow> 'a \<Rightarrow> disk" where
  "saveJson stringify writable fs path obj =
     (if writable then fs(path \<mapsto> stringify obj) else fs)"

definition defaultSimulation :: "string \<Rightarrow> simulation" where
  "defaultSimulation randomId =
     \<lparr> running = False, targetType = [], targetValue = [], delay = Some 10, prefix = [],
       sessionId = randomId, uptime = 0, filePath = None, totalLines = 0,
       currentIndex = 0, linesPreview = [], lastSentAt = None, number = None \<rparr>"

definition appendLog :: "json \<Rightarrow> (string \<Rightarrow> bool) \<Rightarrow> nat \<Rightarrow> logBody \<Rightarrow> simServer \<Rightarrow> simServer" where
  "appendLog J writable now entry s =
     (let pushed = logs s @ [(now, entry)];
          capped = (if length pushed > 2000 then drop (length pushed - 2000) pushed
                    else pushed)
      in s\<lparr> logs := capped,
            files := saveJson (stringifyLogs J) (writable LOGS_FILE) (files s) LOGS_FILE capped \<rparr>)"

definition uptimeTick :: "simServer \<Rightarrow> simServer" where
  "uptimeTick s =
     (if running (simulation s)
      then s\<lparr> simulation := (simulation s)\<lparr> uptime := uptime (simulation s) + 1 \<rparr> \<rparr>
      else s)"

definition readLinesFromFile :: "disk \<Rightarrow> string \<Rightarrow> string list option" where
  "readLinesFromFile fs path =
     (case fs path of
        None \<Rightarrow> None
      | Some raw \<Rightarrow> Some (filter (\<lambda>l. length l > 0) (map trim (splitCRLF raw))))"

definition delayMs :: "simulation \<Rightarrow> int" where
  "delayMs sim =
     max 1000 ((case delay sim of None \<Rightarrow> 10 | Some d \<Rightarrow> if d = 0 then 10 else d) * 1000)"

definition startLoop :: "simServer \<Rightarrow> simServer" where
  "startLoop s =
     (case filePath (simulation s) of
        None \<Rightarrow> s
      | Some p \<Rightarrow> if p = [] then s else s\<lparr> loopTimer := Some (delayMs (simulation s)) \<rparr>)"

text \<open>
  One run of the interval callback that \<open>startLoop\<close> installs. A \<^verbatim>\<open>null\<close> path makes
  \<^verbatim>\<open>fs.readFileSync\<close> throw, like a missing file.
\<close>

definition loopTick :: "json \<Rightarrow> (string \<Rightarrow> bool) \<Rightarrow> nat \<Rightarrow> simServer \<Rightarrow> simServer" where
  "loopTick J writable now s =
     (let sim = simulation s in
      if \<not> running sim then s
      else
        (case (case filePath sim of None \<Rightarrow> None | Some p \<Rightarrow> readLinesFromFile (files s) p) of
           None \<Rightarrow> appendLog J writable now (ReadError ''Failed reading upload file'') s
         | Some lines \<Rightarrow>
             if length lines = 0 then s
             else
               (let i = (if currentIndex sim \<ge> length lines then 0 else currentIndex sim);
                    plain = lines ! i;
                    textToSend = (if prefix sim \<noteq> [] then prefix sim @ '' '' else []) @ plain;
                    s1 = appendLog J writable now
                           (SimulatedSend (targetType sim) (targetValue sim) textToSend i) s;
                    j = (if i + 1 \<ge> length lines then 0 else i + 1);
                    sim' = sim\<lparr> lastSentAt := Some now, currentIndex := j,
                                totalLines := length lines \<rparr>
                in s1\<lparr> simulation := sim',
                       files := saveJson (stringifyState J) (writable SESSIONS_FILE) (files s1)
                                  SESSIONS_FILE sim' \<rparr>)))"

text \<open>
  Start of the process: the module body loads both files, and the \<^verbatim>\<open>app.listen\<close>
  callback resumes the loop of a simulation that was running.
\<close>

definition boot :: "json \<Rightarrow> string \<Rightarrow> disk \<Rightarrow> simServer" where
  "boot J randomId fs =
     \<lparr> simulation = loadJson (parseState J) fs SESSIONS_FILE (defaultSimulation randomId),
       logs = loadJson (parseLogs J) fs LOGS_FILE [],
       loopTimer = None,
       files = fs \<rparr>"

definition listening :: "simServer \<Rightarrow> simServer" where
  "listening s =
     (if running (simulation s) \<and> filePath (simulation s) \<noteq> None
         \<and> filePath (simulation s) \<noteq> Some []
      then startLoop s else s)"

text \<open>
  The numbers of JavaScript are IEEE 754 doubles: 53 significant bits, every sum and
  product the exact result rounded to the nearest double, a tie to the one with the
  even significand. A double that is not negative is written here as a fraction
  \<open>n / 2 ^ e\<close> of two naturals. \<open>bitLength n\<close> is the number of binary digits of \<open>n\<close>;
  \<open>roundDouble n\<close> is the numerator of the double nearest to \<open>n / 2 ^ e\<close>, for any
  \<open>e\<close> that leaves the result in the normal range: \<open>n\<close> itself when 53 bits hold
  it, otherwise \<open>n\<close> without its \<open>bitLength n - 53\<close> low bits, rounded to
  nearest-even.
\<close>

fun bitLength :: "nat \<Rightarrow> nat" where
  "bitLength n = (if n = 0 then 0 else Suc (bitLength (n div 2)))"

declare bitLength.simps [simp del]

definition roundDouble :: "nat \<Rightarrow> nat" where
  "roundDouble n =
     (let k = bitLength n - 53;
          q = n div 2 ^ k;
          r = n mod 2 ^ k
      in if k = 0 then n
         else if 2 ^ k < 2 * r \<or> (2 * r = 2 ^ k \<and> odd q) then (q + 1) * 2 ^ k
         else q * 2 ^ k)"

text \<open>
  \<^verbatim>\<open>POST /pair\<close>. \<open>random\<close> is the double \<^verbatim>\<open>Math.random()\<close> returns, the pair
  \<open>(m, e)\<close> standing for \<open>m / 2 ^ e\<close>. Over the denominator \<open>2 ^ e\<close> the product
  \<^verbatim>\<open>Math.random() * 900000\<close> has the numerator \<open>roundDouble (m * 900000)\<close>, the sum
  with 100000 the numerator \<open>roundDouble (100000 * 2 ^ e + roundDouble (m * 900000))\<close>,
  and \<^verbatim>\<open>Math.floor\<close> is the integer quotient by \<open>2 ^ e\<close>.
\<close>

record pairResponse =
  message :: string
  pairingCode :: int

definition pair :: "json \<Rightarrow> (string \<Rightarrow> bool) \<Rightarrow> nat \<Rightarrow> nat \<times> nat \<Rightarrow> string option
    \<Rightarrow> simServer \<Rightarrow> pairResponse \<times> simServer" where
  "pair J writable now random body_number s =
     (let code = (case random of
                    (m, e) \<Rightarrow>
                      int (roundDouble (100000 * 2 ^ e + roundDouble (m * 900000)) div 2 ^ e));
          sim' = (simulation s)\<lparr> number :=
                   (case body_number of
                      None \<Rightarrow> number (simulation s)
                    | Some n \<Rightarrow> if n = [] then number (simulation s) else Some n) \<rparr>;
          s1 = s\<lparr> simulation := sim',
                  files := saveJson (stringifyState J) (writable SESSIONS_FILE) (files s)
                             SESSIONS_FILE sim' \<rparr>;
          s2 = appendLog J writable now (PairLog (number sim') code) s1
      in (\<lparr> message = ''Pairing simulated (demo).'', pairingCode = code \<rparr>, s2))"

section \<open>The WhatsApp server (index.js)\<close>

subsection \<open>State\<close>

text \<open>
  A socket that \<^verbatim>\<open>makeWASocket\<close> returns is known by its identity, a \<open>handle\<close>. The
  fields of a registry entry can be absent: the close handler spreads
  \<^verbatim>\<open>activeClients.get(sessionId) || {}\<close>, so an entry rebuilt from the empty object has
  only \<open>connected\<close> and \<open>retryCount\<close>. \<open>None\<close> is the absent (undefined) field.
  \<open>retryCount\<close> only ever holds 0 or a successor below 1001, so a natural number
  stands for the JavaScript number.
\<close>

type_synonym handle = nat

datatype jsDate = Undefined | Null | Date nat

record clientInfo =
  client :: "handle option"
  number :: "string option"
  authPath :: "string option"
  connected :: "bool option"
  lastConnected :: jsDate
  retryCount :: "nat option"

record taskInfo =
  id' :: string
  sessionId :: string
  target :: string
  targetJid :: string
  targetType :: string
  prefix :: string
  totalMessages :: nat
  sentMessages :: nat
  isSending :: bool
  stopRequested :: bool
  startedAt :: nat
  lastSentAt :: "nat option"
  endedAt :: "nat option"

text \<open>
  A background send loop is the closure of the \<^verbatim>\<open>async\<close> function of
  \<^verbatim>\<open>/send-message\<close> and the place where it is suspended: \<open>Sending i\<close> at
  \<^verbatim>\<open>await waClient.sendMessage\<close> of iteration \<open>i\<close>, \<open>Sleeping i\<close> at the
  \<^verbatim>\<open>await delay\<close> that ends iteration \<open>i\<close>, \<open>Ended\<close> after the code that follows
  the \<^verbatim>\<open>for\<close> statement has run.
\<close>

datatype position = Sending nat | Sleeping nat | Ended

record sendLoop =
  loopTaskId :: string
  loopClient :: handle
  loopTargetJid :: string
  loopPrefix :: string
  messages :: "string list"
  suspendedAt :: position

text \<open>
  A call of \<^verbatim>\<open>waClient.sendMessage(targetJid, { text })\<close>, with the loop and the iteration
  that made it.
\<close>

record sendCall =
  byLoop :: nat
  iterationIndex :: nat
  via :: handle
  jid :: string
  body :: string

datatype connectionState = Open | Close | OtherState

record connectionUpdate =
  connection :: connectionState
  statusCode :: "int option"
  qr :: "string option"

datatype timerOrigin = AfterClose | AfterInitError

datatype consoleLine =
    ConnectionUpdateLine string connectionState
  | ConnectedLine string string
  | ReconnectingLine nat string
  | MaxRetriesLine string
  | LoggedOutLine string
  | QRLine string
  | InitErrorLine string string
  | RetryingInitLine string
  | ReInitErrorLine string string
  | RetryInitErrorLine string string
  | KeepAlivePingLine string
  | KeepAliveFailedLine string string
  | PairingErrorLine string
  | TaskStartingLine string string nat
  | ExitingLoopLine string
  | SentLine nat nat string
  | SendFailedLine nat string string
  | TaskCompletedLine string nat nat
  | SendMessageErrorLine string
  | StopRequestedLine string
  | GroupsFoundLine nat
  | GroupsErrorLine string

text \<open>
  The state of the process: the two registries, the pending \<^verbatim>\<open>setTimeout\<close> callbacks
  (reconnects, and the removal of a finished task), the send loops started so far, and
  what the process has done to the outside (calls to the provider, console lines),
  and the promises that were rejected with no handler attached.
  The removal of the uploaded file when a loop ends and the length of the delays are
  left out.
\<close>

record server =
  activeClients :: "(string, clientInfo) js_map"
  activeTasks :: "(string, taskInfo) js_map"
  reconnectTimers :: "(string \<times> string \<times> timerOrigin) list"
  evictTimers :: "string list"
  loops :: "sendLoop list"
  sendCalls :: "sendCall list"
  presenceCalls :: "handle list"
  unhandledRejections :: "(handle \<times> string) list"
  console :: "consoleLine list"

definition initialServer :: server where
  "initialServer =
     \<lparr> activeClients = [], activeTasks = [], reconnectTimers = [], evictTimers = [],
       loops = [], sendCalls = [], presenceCalls = [], unhandledRejections = [],
       console = [] \<rparr>"

definition MAX_RETRIES :: nat where
  "MAX_RETRIES = 1000"

definition say :: "consoleLine \<Rightarrow> server \<Rightarrow> server" where
  "say line s = s\<lparr> console := console s @ [line] \<rparr>"

definition orZero :: "nat option \<Rightarrow> nat" where
  "orZero v = (case v of None \<Rightarrow> 0 | Some n \<Rightarrow> n)"

definition orEmpty :: "string option \<Rightarrow> string" where
  "orEmpty v = (case v of None \<Rightarrow> [] | Some x \<Rightarrow> x)"

definition emptyObject :: clientInfo where
  "emptyObject =
     \<lparr> client = None, number = None, authPath = None, connected = None,
       lastConnected = Undefined, retryCount = None \<rparr>"

definition toNumberJid :: "string \<Rightarrow> string" where
  "toNumberJid n = (if CHR ''@'' \<in> set n then n else n @ ''@s.whatsapp.net'')"

subsection \<open>Session lifecycle\<close>

text \<open>
  \<open>initializeClient\<close>. Everything before \<^verbatim>\<open>activeClients.set\<close> in the \<^verbatim>\<open>try\<close> block
  (creating the directory, loading the credentials, fetching the version, making the
  socket) reads and writes nothing of the state, so the block either throws with the
  state untouched (\<open>Inl\<close> the error's message) or yields the socket (\<open>Inr\<close>).
  The result is what the promise settles to.
\<close>

definition initializeClient ::
    "string \<Rightarrow> string \<Rightarrow> bool \<Rightarrow> string + handle \<Rightarrow> server \<Rightarrow> (string + handle) \<times> server" where
  "initializeClient sid phoneNumber isReconnect made s =
     (case made of
        Inr waClient \<Rightarrow>
          (Inr waClient,
           if \<not> isReconnect
           then s\<lparr> activeClients := Map_set (activeClients s) sid
                      \<lparr> client = Some waClient, number = Some phoneNumber,
                        authPath = Some (''sessions/'' @ sid), connected = Some False,
                        lastConnected = Null, retryCount = Some 0 \<rparr> \<rparr>
           else s)
      | Inl err \<Rightarrow>
          (Inl err,
           let s1 = say (InitErrorLine sid err) s in
           (case Map_get (activeClients s1) sid of
              None \<Rightarrow> s1
            | Some info \<Rightarrow>
                if orZero (retryCount info) < MAX_RETRIES
                then (say (RetryingInitLine sid) s1)
                       \<lparr> reconnectTimers :=
                           reconnectTimers s1 @ [(sid, phoneNumber, AfterInitError)] \<rparr>
                else s1)))"

text \<open>
  The \<^verbatim>\<open>connection.update\<close> handler of the socket \<open>waClient\<close> that
  \<open>initializeClient sid phoneNumber isReconnect\<close> made. \<open>loggedOut\<close> is the provider's
  constant \<^verbatim>\<open>DisconnectReason.loggedOut\<close>.
\<close>

definition onConnectionUpdate ::
    "int \<Rightarrow> string \<Rightarrow> string \<Rightarrow> bool \<Rightarrow> handle \<Rightarrow> nat \<Rightarrow> connectionUpdate \<Rightarrow> server \<Rightarrow> server" where
  "onConnectionUpdate loggedOut sid phoneNumber isReconnect waClient now u s =
     (let s0 = say (ConnectionUpdateLine sid (connection u)) s;
          s1 =
            (case connection u of
               Open \<Rightarrow>
                 (say (ConnectedLine phoneNumber sid) s0)
                   \<lparr> activeClients := Map_set (activeClients s0) sid
                       \<lparr> client = Some waClient, number = Some phoneNumber,
                         authPath = Some (''sessions/'' @ sid), connected = Some True,
                         lastConnected = Date now, retryCount = Some 0 \<rparr> \<rparr>
             | Close \<Rightarrow>
                 (let shouldReconnect =
                        (statusCode u \<noteq> Some loggedOut \<and> statusCode u \<noteq> Some 401)
                  in if shouldReconnect
                     then
                       (let info = (case Map_get (activeClients s0) sid of
                                      None \<Rightarrow> emptyObject | Some ci \<Rightarrow> ci);
                            n = orZero (retryCount info)
                        in if n < MAX_RETRIES
                           then (say (ReconnectingLine (n + 1) sid) s0)
                                  \<lparr> activeClients := Map_set (activeClients s0) sid
                                      (info\<lparr> connected := Some False,
                                             retryCount := Some (n + 1) \<rparr>),
                                    reconnectTimers :=
                                      reconnectTimers s0 @ [(sid, phoneNumber, AfterClose)] \<rparr>
                           else say (MaxRetriesLine sid) s0)
                     else (say (LoggedOutLine sid) s0)
                            \<lparr> activeClients := Map_delete (activeClients s0) sid \<rparr>)
             | OtherState \<Rightarrow> s0)
      in if orEmpty (qr u) \<noteq> [] \<and> \<not> isReconnect then say (QRLine phoneNumber) s1 else s1)"

text \<open>
  The \<open>k\<close>-th pending reconnect timer fires: \<^verbatim>\<open>initializeClient(sessionId, phoneNumber,
  true)\<close>, whose rejection is logged by the timer's \<^verbatim>\<open>catch\<close>.
\<close>

definition reconnectTimerFires :: "nat \<Rightarrow> string + handle \<Rightarrow> server \<Rightarrow> server" where
  "reconnectTimerFires k made s =
     (if k < length (reconnectTimers s)
      then
        (case reconnectTimers s ! k of
           (sid, phoneNumber, origin) \<Rightarrow>
             (let s1 = s\<lparr> reconnectTimers :=
                            take k (reconnectTimers s) @ drop (Suc k) (reconnectTimers s) \<rparr>
              in (case initializeClient sid phoneNumber True made s1 of
                    (Inl err, s2) \<Rightarrow>
                      say (case origin of
                             AfterClose \<Rightarrow> ReInitErrorLine sid err
                           | AfterInitError \<Rightarrow> RetryInitErrorLine sid err) s2
                  | (Inr waClient, s2) \<Rightarrow> s2)))
      else s)"

text \<open>
  The keep-alive ticker. \<^verbatim>\<open>sendPresenceUpdate\<close> is a function of the provider; what a
  call of it on socket \<open>c\<close> does is \<open>outcome c\<close>: it returns (a value, or a promise
  that is fulfilled), it throws with a message, or it returns a promise that is
  rejected with a message, which is how a call that works asynchronously fails. The
  ticker neither awaits the call nor attaches a handler to what it returns. So the
  \<^verbatim>\<open>try\<close> block runs to its end whenever the call returns, promise or not, and prints
  the ping line; only a call that throws reaches the \<^verbatim>\<open>catch\<close> block. A promise that
  is rejected afterwards has no handler, and the program installs no
  \<^verbatim>\<open>unhandledRejection\<close> listener: Node reports the rejection and, by its default
  since version 15, ends the process with exit code 1. The model records such a
  rejection in \<open>unhandledRejections\<close>; \<open>crashed\<close> says that the process has met one.
  The model keeps applying events to a crashed state, the real process has none left.
\<close>

datatype presenceOutcome = Returns | Throws string | Rejects string

definition keepAliveEntry :: "(handle \<Rightarrow> presenceOutcome) \<Rightarrow> string \<times> clientInfo \<Rightarrow> server
    \<Rightarrow> server" where
  "keepAliveEntry outcome entry s =
     (case entry of
        (sid, info) \<Rightarrow>
          if connected info = Some True
          then
            (case client info of
               None \<Rightarrow> s
             | Some c \<Rightarrow>
                 (let s1 = s\<lparr> presenceCalls := presenceCalls s @ [c] \<rparr>
                  in (case outcome c of
                        Returns \<Rightarrow> say (KeepAlivePingLine sid) s1
                      | Throws msg \<Rightarrow> say (KeepAliveFailedLine sid msg) s1
                      | Rejects msg \<Rightarrow>
                          say (KeepAlivePingLine sid)
                            (s1\<lparr> unhandledRejections :=
                                   unhandledRejections s1 @ [(c, msg)] \<rparr>))))
          else s)"

definition keepAlive :: "(handle \<Rightarrow> presenceOutcome) \<Rightarrow> server \<Rightarrow> server" where
  "keepAlive outcome s = fold (keepAliveEntry outcome) (activeClients s) s"

definition crashed :: "server \<Rightarrow> bool" where
  "crashed s = (unhandledRejections s \<noteq> [])"

text \<open>
  For the statements about a round of the ticker: the socket the ticker calls for a
  registry entry, if any; the console line that follows a call; the rejection a call
  leaves behind, if any.
\<close>

definition pinged :: "string \<times> clientInfo \<Rightarrow> handle option" where
  "pinged e = (if connected (snd e) = Some True then client (snd e) else None)"

definition presenceLine :: "(handle \<Rightarrow> presenceOutcome) \<Rightarrow> string \<Rightarrow> handle \<Rightarrow> consoleLine" where
  "presenceLine outcome sid c =
     (case outcome c of
        Returns \<Rightarrow> KeepAlivePingLine sid
      | Throws msg \<Rightarrow> KeepAliveFailedLine sid msg
      | Rejects msg \<Rightarrow> KeepAlivePingLine sid)"

definition rejection :: "(handle \<Rightarrow> presenceOutcome) \<Rightarrow> handle \<Rightarrow> (handle \<times> string) option" where
  "rejection outcome c =
     (case outcome c of
        Returns \<Rightarrow> None
      | Throws msg \<Rightarrow> None
      | Rejects msg \<Rightarrow> Some (c, msg))"

text \<open>
  \<^verbatim>\<open>GET /code\<close>. \<open>made\<close> is the outcome of the socket's construction; \<open>sock\<close> says what
  the handler reads from the socket after its two-second wait: whether the credentials
  are registered, and \<^verbatim>\<open>requestPairingCode\<close> when the socket has such a function
  (\<open>Inl\<close> when its promise is rejected).
\<close>

record socketView =
  registered :: bool
  requestPairingCode :: "(string \<Rightarrow> string + string) option"

datatype codeResponse =
    MissingNumber
  | PairingPage string string
  | AlreadyConnected string
  | PairingFailed string

definition SCAN_QR :: string where
  "SCAN_QR = ''SCAN_QR_FROM_SERVER_LOGS''"

definition newSessionId :: "string \<Rightarrow> nat \<Rightarrow> string" where
  "newSessionId num now = ''perm_'' @ num @ ''_'' @ String_of_nat now"

definition getCode ::
    "string option \<Rightarrow> nat \<Rightarrow> string + handle \<Rightarrow> socketView \<Rightarrow> server \<Rightarrow> codeResponse \<times> server" where
  "getCode query_number now made sock s =
     (if orEmpty query_number = [] then (MissingNumber, s)
      else
        (let num = digitsOnly (orEmpty query_number);
             sid = newSessionId num now
         in (case initializeClient sid num False made s of
               (Inl err, s1) \<Rightarrow> (PairingFailed err, say (PairingErrorLine err) s1)
             | (Inr waClient, s1) \<Rightarrow>
                 if \<not> registered sock
                 then
                   (case requestPairingCode sock of
                      Some request \<Rightarrow>
                        (case request num of
                           Inl err \<Rightarrow> (PairingFailed err, say (PairingErrorLine err) s1)
                         | Inr code \<Rightarrow> (PairingPage code sid, s1))
                    | None \<Rightarrow> (PairingPage SCAN_QR sid, s1))
                 else (AlreadyConnected sid, s1))))"

subsection \<open>Task dispatch\<close>

text \<open>
  The code after the \<^verbatim>\<open>for\<close> statement of the loop \<open>j\<close>: mark the task finished if it
  is still registered, and schedule its removal.
\<close>

definition finish :: "nat \<Rightarrow> nat \<Rightarrow> server \<Rightarrow> server" where
  "finish j now s =
     (let l = loops s ! j;
          tid = loopTaskId l;
          s1 = (case Map_get (activeTasks s) tid of
                  None \<Rightarrow> s
                | Some finishedTask \<Rightarrow>
                    s\<lparr> activeTasks := Map_set (activeTasks s) tid
                          (finishedTask\<lparr> isSending := False, endedAt := Some now \<rparr>) \<rparr>);
          sent = (case Map_get (activeTasks s1) tid of
                    None \<Rightarrow> 0 | Some finishedTask \<Rightarrow> sentMessages finishedTask)
      in (say (TaskCompletedLine tid sent (length (messages l))) s1)
           \<lparr> evictTimers := evictTimers s1 @ [tid],
             loops := (loops s1)[j := l\<lparr> suspendedAt := Ended \<rparr>] \<rparr>)"

text \<open>
  The \<^verbatim>\<open>for\<close> statement of loop \<open>j\<close> from its test \<^verbatim>\<open>i < messages.length\<close> to the next
  \<^verbatim>\<open>await\<close>: the checkpoint, then the call of \<^verbatim>\<open>sendMessage\<close>; or the exit from the
  loop and the code after it.
\<close>

definition iteration :: "nat \<Rightarrow> nat \<Rightarrow> nat \<Rightarrow> server \<Rightarrow> server" where
  "iteration j i now s =
     (let l = loops s ! j in
      if i < length (messages l)
      then
        (case Map_get (activeTasks s) (loopTaskId l) of
           None \<Rightarrow> finish j now (say (ExitingLoopLine (loopTaskId l)) s)
         | Some currentTask \<Rightarrow>
             if stopRequested currentTask
             then finish j now (say (ExitingLoopLine (loopTaskId l)) s)
             else
               (let textToSend =
                      (if loopPrefix l \<noteq> [] then loopPrefix l @ '' '' @ messages l ! i
                       else messages l ! i)
                in s\<lparr> sendCalls := sendCalls s @
                         [\<lparr> byLoop = j, iterationIndex = i, via = loopClient l,
                            jid = loopTargetJid l, body = textToSend \<rparr>],
                       loops := (loops s)[j := l\<lparr> suspendedAt := Sending i \<rparr>] \<rparr>))
      else finish j now s)"

text \<open>
  The promise of \<^verbatim>\<open>sendMessage\<close> that loop \<open>j\<close> awaits settles: \<open>None\<close> when it is
  fulfilled, the error's message when it is rejected. The loop then waits in
  \<^verbatim>\<open>delay\<close>.
\<close>

definition sendSettled :: "nat \<Rightarrow> string option \<Rightarrow> nat \<Rightarrow> server \<Rightarrow> server" where
  "sendSettled j rejected now s =
     (if j < length (loops s)
      then
        (case suspendedAt (loops s ! j) of
           Sending i \<Rightarrow>
             (let l = loops s ! j;
                  tid = loopTaskId l;
                  s1 = (case rejected of
                          None \<Rightarrow>
                            say (SentLine (i + 1) (length (messages l)) tid)
                              (case Map_get (activeTasks s) tid of
                                 None \<Rightarrow> s
                               | Some t \<Rightarrow>
                                   s\<lparr> activeTasks := Map_set (activeTasks s) tid
                                         (t\<lparr> sentMessages := sentMessages t + 1,
                                             lastSentAt := Some now \<rparr>) \<rparr>)
                        | Some err \<Rightarrow> say (SendFailedLine (i + 1) tid err) s)
              in s1\<lparr> loops := (loops s1)[j := l\<lparr> suspendedAt := Sleeping i \<rparr>] \<rparr>)
         | Sleeping i \<Rightarrow> s
         | Ended \<Rightarrow> s)
      else s)"

text \<open>The \<^verbatim>\<open>delay\<close> that loop \<open>j\<close> awaits elapses: \<^verbatim>\<open>i++\<close> and the next iteration.\<close>

definition delayElapsed :: "nat \<Rightarrow> nat \<Rightarrow> server \<Rightarrow> server" where
  "delayElapsed j now s =
     (if j < length (loops s)
      then
        (case suspendedAt (loops s ! j) of
           Sleeping i \<Rightarrow> iteration j (i + 1) now s
         | Sending i \<Rightarrow> s
         | Ended \<Rightarrow> s)
      else s)"

text \<open>The \<open>k\<close>-th pending removal timer fires: \<^verbatim>\<open>activeTasks.delete(taskId)\<close>.\<close>

definition evictTimerFires :: "nat \<Rightarrow> server \<Rightarrow> server" where
  "evictTimerFires k s =
     (if k < length (evictTimers s)
      then s\<lparr> activeTasks := Map_delete (activeTasks s) (evictTimers s ! k),
              evictTimers := take k (evictTimers s) @ drop (Suc k) (evictTimers s) \<rparr>
      else s)"

text \<open>
  \<^verbatim>\<open>POST /send-message\<close>. The body fields are strings or absent; \<open>file_path\<close> is
  \<^verbatim>\<open>req.file?.path\<close> and \<open>file_text\<close> what \<^verbatim>\<open>fs.readFileSync\<close> returns for it (\<open>Inl\<close>
  the error's message when it throws). \<open>now\<close> is the clock and \<open>suffix\<close> the five
  characters taken from \<^verbatim>\<open>Math.random().toString(36)\<close>. The \<^verbatim>\<open>async\<close> function starts at
  once and runs to its first \<^verbatim>\<open>await\<close> inside the handler: the new loop is entered in
  the list of loops and its first iteration runs.
\<close>

record sendRequest =
  body_target :: "string option"
  body_targetType :: "string option"
  body_delaySec :: "string option"
  body_prefix :: "string option"
  file_path :: "string option"
  file_text :: "string + string"

datatype sendResponse =
    NoActiveSession
  | MissingFields
  | NoMessages
  | TaskStarted string string string nat
  | SendMessageFailed string

definition newTaskId :: "nat \<Rightarrow> string \<Rightarrow> string" where
  "newTaskId now suffix = ''task_'' @ String_of_nat now @ ''_'' @ suffix"

definition postSendMessage :: "sendRequest \<Rightarrow> nat \<Rightarrow> string \<Rightarrow> server \<Rightarrow> sendResponse \<times> server" where
  "postSendMessage req now suffix s =
     (let pfx = orEmpty (body_prefix req);
          tid = newTaskId now suffix
      in (case activeClients s of
            [] \<Rightarrow> (NoActiveSession, s)
          | (sid, info) # others \<Rightarrow>
              (case (if sid = [] then None else client info) of
                 None \<Rightarrow> (NoActiveSession, s)
               | Some waClient \<Rightarrow>
                   if orEmpty (body_target req) = [] \<or> orEmpty (file_path req) = []
                      \<or> orEmpty (body_targetType req) = [] \<or> orEmpty (body_delaySec req) = []
                   then (MissingFields, s)
                   else
                     (case file_text req of
                        Inl err \<Rightarrow> (SendMessageFailed err, say (SendMessageErrorLine err) s)
                      | Inr raw \<Rightarrow>
                          (let msgs = filter (\<lambda>m. length m > 0) (map trim (splitLF raw)) in
                           if length msgs = 0 then (NoMessages, s)
                           else
                             (let tgt = orEmpty (body_target req);
                                  tjid = (if orEmpty (body_targetType req) = ''number''
                                          then toNumberJid (digitsOnly tgt) else tgt);
                                  info0 = \<lparr> id' = tid, sessionId = sid, target = tgt,
                                            targetJid = tjid,
                                            targetType = orEmpty (body_targetType req),
                                            prefix = pfx, totalMessages = length msgs,
                                            sentMessages = 0, isSending = True,
                                            stopRequested = False, startedAt = now,
                                            lastSentAt = None, endedAt = None \<rparr>;
                                  j = length (loops s);
                                  s1 = s\<lparr> activeTasks := Map_set (activeTasks s) tid info0,
                                          loops := loops s @
                                            [\<lparr> loopTaskId = tid, loopClient = waClient,
                                               loopTargetJid = tjid, loopPrefix = pfx,
                                               messages = msgs, suspendedAt = Sending 0 \<rparr>] \<rparr>;
                                  s2 = say (TaskStartingLine tid tjid (length msgs)) s1
                              in (TaskStarted tid sid tjid (length msgs),
                                  iteration j 0 now s2)))))))"

text \<open>\<^verbatim>\<open>POST /stop-task\<close>.\<close>

datatype stopResponse = MissingTaskId | TaskNotFound | StopAccepted string

definition postStopTask :: "string option \<Rightarrow> server \<Rightarrow> stopResponse \<times> server" where
  "postStopTask body_taskId s =
     (if orEmpty body_taskId = [] then (MissingTaskId, s)
      else
        (case Map_get (activeTasks s) (orEmpty body_taskId) of
           None \<Rightarrow> (TaskNotFound, s)
         | Some task \<Rightarrow>
             (StopAccepted (orEmpty body_taskId),
              say (StopRequestedLine (orEmpty body_taskId))
                (s\<lparr> activeTasks := Map_set (activeTasks s) (orEmpty body_taskId)
                      (task\<lparr> stopRequested := True, isSending := False \<rparr>) \<rparr>))))"

subsection \<open>Status and group listing\<close>

record sessionStatus =
  status_sessionId :: string
  status_number :: "string option"
  status_connected :: "bool option"
  status_lastConnected :: jsDate
  status_retryCount :: "nat option"

record taskStatus =
  status_taskId :: string
  status_target :: string
  status_targetJid :: string
  status_totalMessages :: nat
  status_sentMessages :: nat
  status_isSending :: bool
  status_stopRequested :: bool
  status_startedAt :: nat
  status_lastSentAt :: "nat option"

definition sessionSnapshot :: "string \<Rightarrow> clientInfo \<Rightarrow> sessionStatus" where
  "sessionSnapshot k v =
     \<lparr> status_sessionId = k, status_number = number v, status_connected = connected v,
       status_lastConnected = lastConnected v, status_retryCount = retryCount v \<rparr>"

definition taskSnapshot :: "string \<Rightarrow> taskInfo \<Rightarrow> taskStatus" where
  "taskSnapshot k v =
     \<lparr> status_taskId = k, status_target = target v, status_targetJid = targetJid v,
       status_totalMessages = totalMessages v, status_sentMessages = sentMessages v,
       status_isSending = isSending v, status_stopRequested = stopRequested v,
       status_startedAt = startedAt v, status_lastSentAt = lastSentAt v \<rparr>"

text \<open>\<^verbatim>\<open>GET /status\<close>: one snapshot per entry of each registry, in iteration order.\<close>

definition getStatus :: "server \<Rightarrow> sessionStatus list \<times> taskStatus list" where
  "getStatus s =
     (map (\<lambda>(k, v). sessionSnapshot k v) (activeClients s),
      map (\<lambda>(k, v). taskSnapshot k v) (activeTasks s))"

text \<open>
  \<^verbatim>\<open>GET /groups\<close>. \<open>fetch c\<close> is what \<^verbatim>\<open>groupFetchAllParticipating\<close> gives on socket \<open>c\<close>:
  the groups as subject, id and participants (absent or a list), or \<open>Inl\<close> the error.
  The copy written to \<^verbatim>\<open>group_list.json\<close> is left out.
\<close>

datatype groupsResponse =
    NoSessionConnected
  | NoGroupsFound
  | Groups nat "(string \<times> string \<times> nat) list"
  | GroupsFailed string

definition connectedClient :: "(string, clientInfo) js_map \<Rightarrow> handle option" where
  "connectedClient m =
     (case find (\<lambda>(k, info). connected info = Some True \<and> client info \<noteq> None) m of
        None \<Rightarrow> None
      | Some (k, info) \<Rightarrow> client info)"

definition getGroups ::
    "(handle \<Rightarrow> string + (string \<times> string \<times> string list option) list) \<Rightarrow> server
      \<Rightarrow> groupsResponse \<times> server" where
  "getGroups fetch s =
     (case connectedClient (activeClients s) of
        None \<Rightarrow> (NoSessionConnected, s)
      | Some waClient \<Rightarrow>
          (case fetch waClient of
             Inl err \<Rightarrow> (GroupsFailed err, say (GroupsErrorLine err) s)
           | Inr chats \<Rightarrow>
               (let groups = map (\<lambda>(subject, gid, participants).
                                     (subject, gid,
                                      case participants of None \<Rightarrow> 0 | Some ps \<Rightarrow> length ps))
                                 chats
                in if length groups = 0 then (NoGroupsFound, s)
                   else (Groups (length groups) groups,
                         say (GroupsFoundLine (length groups)) s))))"

subsection \<open>Runs of the process\<close>

text \<open>
  Node runs one callback at a time, each to its next \<^verbatim>\<open>await\<close>. An event is one such
  callback with what the environment decides for it; a run of the process is a list
  of events applied in order. An event that cannot occur in the state (a timer that
  is not pending, a loop that is not waiting in that place) leaves it as it is.
\<close>

datatype event =
    GetCode "string option" nat "string + handle" socketView
  | ConnectionUpdate string string bool handle nat connectionUpdate
  | ReconnectTimerFires nat "string + handle"
  | KeepAliveTick "handle \<Rightarrow> presenceOutcome"
  | PostSendMessage sendRequest nat string
  | PostStopTask "string option"
  | SendSettled nat "string option" nat
  | DelayElapsed nat nat
  | EvictTimerFires nat

fun step :: "int \<Rightarrow> server \<Rightarrow> event \<Rightarrow> server" where
  "step loggedOut s (GetCode q now made sock) = snd (getCode q now made sock s)"
| "step loggedOut s (ConnectionUpdate sid phoneNumber isReconnect waClient now u) =
     onConnectionUpdate loggedOut sid phoneNumber isReconnect waClient now u s"
| "step loggedOut s (ReconnectTimerFires k made) = reconnectTimerFires k made s"
| "step loggedOut s (KeepAliveTick outcome) = keepAlive outcome s"
| "step loggedOut s (PostSendMessage req now suffix) = snd (postSendMessage req now suffix s)"
| "step loggedOut s (PostStopTask tid) = snd (postStopTask tid s)"
| "step loggedOut s (SendSettled j rejected now) = sendSettled j rejected now s"
| "step loggedOut s (DelayElapsed j now) = delayElapsed j now s"
| "step loggedOut s (EvictTimerFires k) = evictTimerFires k s"

definition run :: "int \<Rightarrow> server \<Rightarrow> event list \<Rightarrow> server" where
  "run loggedOut s evs = foldl (step loggedOut) s evs"

text \<open>
  Task ids are meant to be unique (clock and random suffix). An event respects this
  in a state when the id it would give a new task is not the id of a loop started
  before.
\<close>

fun freshId :: "server \<Rightarrow> event \<Rightarrow> bool" where
  "freshId s (PostSendMessage req now suffix) =
     (newTaskId now suffix \<notin> set (map loopTaskId (loops s)))"
| "freshId s e = True"

fun freshIds :: "int \<Rightarrow> server \<Rightarrow> event list \<Rightarrow> bool" where
  "freshIds loggedOut s [] = True"
| "freshIds loggedOut s (e # evs) = (freshId s e \<and> freshIds loggedOut (step loggedOut s e) evs)"

section \<open>Invariants of task dispatch\<close>

text \<open>
  Predicates used to state what holds along every run. A loop that is stopped: it
  waits in its delay or has ended, and its task is gone from the registry or has the
  stop flag set.
\<close>

definition stoppedAt :: "nat \<Rightarrow> nat \<Rightarrow> server \<Rightarrow> bool" where
  "stoppedAt j k s \<longleftrightarrow>
     j < length (loops s)
     \<and> (suspendedAt (loops s ! j) = Sleeping k \<or> suspendedAt (loops s ! j) = Ended)
     \<and> (case Map_get (activeTasks s) (loopTaskId (loops s ! j)) of
          None \<Rightarrow> True | Some t \<Rightarrow> stopRequested t)"

text \<open>
  The number of sends a loop can have counted so far, by the place where it is
  suspended, and the bound of that place by the number of messages.
\<close>

definition progress :: "sendLoop \<Rightarrow> nat" where
  "progress l =
     (case suspendedAt l of
        Sending i \<Rightarrow> i | Sleeping i \<Rightarrow> Suc i | Ended \<Rightarrow> length (messages l))"

definition withinMessages :: "sendLoop \<Rightarrow> bool" where
  "withinMessages l =
     (case suspendedAt l of
        Sending i \<Rightarrow> i < length (messages l)
      | Sleeping i \<Rightarrow> i < length (messages l)
      | Ended \<Rightarrow> True)"

text \<open>
  The invariant of the two task structures: no two loops have the same task id; each
  loop is suspended within its messages, and the task registered under its id, if
  any, has the loop's number of messages as \<open>totalMessages\<close> and has counted no more
  sends than the loop can have made; every registered task has a loop.
\<close>

definition taskInv :: "server \<Rightarrow> bool" where
  "taskInv s \<longleftrightarrow>
     distinct (map loopTaskId (loops s))
     \<and> (\<forall>l \<in> set (loops s).
          withinMessages l
          \<and> (case Map_get (activeTasks s) (loopTaskId l) of
               None \<Rightarrow> True
             | Some t \<Rightarrow> totalMessages t = length (messages l) \<and> sentMessages t \<le> progress l))
     \<and> (\<forall>k \<in> set (map fst (activeTasks s)). k \<in> set (map loopTaskId (loops s)))"

section \<open>Example inputs\<close>

text \<open>
  Concrete inputs at which the theorems below are instantiated: a registry whose only
  session is disconnected (its socket is 7), an upload of two lines for a number, and
  the state right after that request has started a task.
\<close>

definition exampleSession :: server where
  "exampleSession =
     \<lparr> activeClients =
         [(''perm_1_2'', \<lparr> client = Some 7, number = Some ''1'',
             authPath = Some ''sessions/perm_1_2'', connected = Some False,
             lastConnected = Null, retryCount = Some 3 \<rparr>)],
       activeTasks = [], reconnectTimers = [], evictTimers = [], loops = [],
       sendCalls = [], presenceCalls = [], unhandledRejections = [], console = [] \<rparr>"

definition exampleRequest :: sendRequest where
  "exampleRequest =
     \<lparr> body_target = Some ''+91 98'', body_targetType = Some ''number'',
       body_delaySec = Some ''1'', body_prefix = None, file_path = Some ''uploads/f'',
       file_text = Inr (''hi'' @ [CHR 0x0A] @ '' yo '' @ [CHR 0x0A]) \<rparr>"

definition exampleTask :: server where
  "exampleTask = snd (postSendMessage exampleRequest 5 ''abcde'' exampleSession)"

text \<open>
  For the simulation: a snapshot of a running simulation that has sent two of three
  lines, a codec that knows this snapshot only, and a disk that holds the upload.
\<close>

definition exampleSimulation :: simulation where
  "exampleSimulation =
     \<lparr> running = True, targetType = ''number'', targetValue = ''9198'', delay = Some 5,
       prefix = ''yo'', sessionId = ''abcd1234'', uptime = 42, filePath = Some ''uploads/f'',
       totalLines = 3, currentIndex = 2, linesPreview = [''a'', ''b'', ''c''],
       lastSentAt = Some 77, number = None \<rparr>"

definition exampleJson :: json where
  "exampleJson =
     \<lparr> stringifyState = (\<lambda>x. ''{state}''),
       parseState = (\<lambda>t. if t = ''{state}'' then Some exampleSimulation else None),
       stringifyLogs = (\<lambda>x. ''[logs]''),
       parseLogs = (\<lambda>t. None) \<rparr>"

definition exampleDisk :: disk where
  "exampleDisk = [''uploads/f'' \<mapsto> ''a'' @ [CHR 0x0D, CHR 0x0A] @ ''b'' @ [CHR 0x0A] @ '' c '']"

section \<open>Properties\<close>

subsection \<open>Registries, console and status\<close>

lemma Map_get_set: "Map_get (Map_set m k v) k' = (if k' = k then Some v else Map_get m k')"
  by (simp add: Map_get_def Map_set_def update_conv')

lemma Map_get_delete: "Map_get (Map_delete m k) k' = (if k' = k then None else Map_get m k')"
  by (simp add: Map_get_def Map_delete_def delete_conv')

lemma keys_Map_delete: "k \<notin> fst ` set (Map_delete m k)"
  by (simp add: Map_delete_def delete_notin_dom)

lemma say_simps [simp]:
  "activeClients (say l s) = activeClients s"
  "activeTasks (say l s) = activeTasks s"
  "reconnectTimers (say l s) = reconnectTimers s"
  "evictTimers (say l s) = evictTimers s"
  "loops (say l s) = loops s"
  "sendCalls (say l s) = sendCalls s"
  "presenceCalls (say l s) = presenceCalls s"
  "unhandledRejections (say l s) = unhandledRejections s"
  "console (say l s) = console s @ [l]"
  by (simp_all add: say_def)

lemma run_Nil [simp]: "run lo s [] = s"
  by (simp add: run_def)

lemma run_Cons [simp]: "run lo s (e # evs) = run lo (step lo s e) evs"
  by (simp add: run_def)

lemma run_append: "run lo s (evs @ evs') = run lo (run lo s evs) evs'"
  by (simp add: run_def)

lemma find_key_Map_get:
  assumes "\<And>e. key (f e) = fst e" and "Map_get m k = Some v"
  shows "find (\<lambda>x. key x = k) (map f m) = Some (f (k, v))"
  using assms(2) unfolding Map_get_def
  by (induction m) (auto simp: assms(1) split: if_splits)

lemma status_of_task:
  assumes "Map_get (activeTasks s) k = Some v"
  shows "find (\<lambda>st. status_taskId st = k) (snd (getStatus s)) = Some (taskSnapshot k v)"
proof -
  have "find (\<lambda>x. status_taskId x = k) (map (\<lambda>(k, v). taskSnapshot k v) (activeTasks s)) =
          Some ((\<lambda>(k, v). taskSnapshot k v) (k, v))"
    by (rule find_key_Map_get) (simp_all add: assms case_prod_unfold taskSnapshot_def)
  then show ?thesis by (simp add: getStatus_def)
qed

lemma status_session_ids: "map status_sessionId (fst (getStatus s)) = map fst (activeClients s)"
  by (simp add: getStatus_def sessionSnapshot_def case_prod_unfold comp_def)

lemma exampleTask_tasks:
  "activeTasks exampleTask =
     [(newTaskId 5 ''abcde'',
       \<lparr> id' = newTaskId 5 ''abcde'', sessionId = ''perm_1_2'', target = ''+91 98'',
         targetJid = ''9198@s.whatsapp.net'', targetType = ''number'', prefix = [],
         totalMessages = 2, sentMessages = 0, isSending = True, stopRequested = False,
         startedAt = 5, lastSentAt = None, endedAt = None \<rparr>)]"
  "loops exampleTask =
     [\<lparr> loopTaskId = newTaskId 5 ''abcde'', loopClient = 7,
        loopTargetJid = ''9198@s.whatsapp.net'', loopPrefix = [],
        messages = [''hi'', ''yo''], suspendedAt = Sending 0 \<rparr>]"
  by (simp_all add: exampleTask_def postSendMessage_def exampleSession_def exampleRequest_def
      trim_def isWhiteSpace_def consFirst_def digitsOnly_def isDigit_def toNumberJid_def
      orEmpty_def Let_def iteration_def Map_get_def Map_set_def)

lemma newTaskId_nonempty: "newTaskId now suffix \<noteq> []"
  by (simp add: newTaskId_def)

lemma exampleTask_eq:
  "exampleTask =
     \<lparr> activeClients = activeClients exampleSession,
       activeTasks =
         [(newTaskId 5 ''abcde'',
           \<lparr> id' = newTaskId 5 ''abcde'', sessionId = ''perm_1_2'', target = ''+91 98'',
             targetJid = ''9198@s.whatsapp.net'', targetType = ''number'', prefix = [],
             totalMessages = 2, sentMessages = 0, isSending = True, stopRequested = False,
             startedAt = 5, lastSentAt = None, endedAt = None \<rparr>)],
       reconnectTimers = [], evictTimers = [],
       loops =
         [\<lparr> loopTaskId = newTaskId 5 ''abcde'', loopClient = 7,
            loopTargetJid = ''9198@s.whatsapp.net'', loopPrefix = [],
            messages = [''hi'', ''yo''], suspendedAt = Sending 0 \<rparr>],
       sendCalls =
         [\<lparr> byLoop = 0, iterationIndex = 0, via = 7, jid = ''9198@s.whatsapp.net'',
            body = ''hi'' \<rparr>],
       presenceCalls = [],
       unhandledRejections = [],
       console = [TaskStartingLine (newTaskId 5 ''abcde'') ''9198@s.whatsapp.net'' 2] \<rparr>"
  by (simp add: exampleTask_def postSendMessage_def exampleSession_def exampleRequest_def
      trim_def isWhiteSpace_def consFirst_def digitsOnly_def isDigit_def toNumberJid_def
      orEmpty_def Let_def iteration_def Map_get_def Map_set_def say_def)

lemmas evaluate =
  initialServer_def postSendMessage_def onConnectionUpdate_def sendSettled_def
  delayElapsed_def iteration_def finish_def postStopTask_def evictTimerFires_def Let_def
  exampleRequest_def emptyObject_def orZero_def orEmpty_def MAX_RETRIES_def Map_get_def
  Map_set_def Map_delete_def say_def trim_def isWhiteSpace_def consFirst_def digitsOnly_def
  isDigit_def toNumberJid_def

lemma exampleRun:
  "activeTasks (run 401 initialServer
     [ConnectionUpdate ''perm_1_2'' ''1'' False 7 1
        \<lparr> connection = Open, statusCode = None, qr = None \<rparr>,
      PostSendMessage exampleRequest 5 ''abcde'',
      SendSettled 0 None 6, DelayElapsed 0 7, SendSettled 0 (Some ''timeout'') 8,
      DelayElapsed 0 9]) =
   [(newTaskId 5 ''abcde'',
           \<lparr> id' = newTaskId 5 ''abcde'', sessionId = ''perm_1_2'', target = ''+91 98'',
             targetJid = ''9198@s.whatsapp.net'', targetType = ''number'', prefix = [],
             totalMessages = 2, sentMessages = 1, isSending = False, stopRequested = False,
             startedAt = 5, lastSentAt = Some 6, endedAt = Some 9 \<rparr>)]"
  "loops (run 401 initialServer
     [ConnectionUpdate ''perm_1_2'' ''1'' False 7 1
        \<lparr> connection = Open, statusCode = None, qr = None \<rparr>,
      PostSendMessage exampleRequest 5 ''abcde'',
      SendSettled 0 None 6, DelayElapsed 0 7, SendSettled 0 (Some ''timeout'') 8,
      DelayElapsed 0 9]) =
    [\<lparr> loopTaskId = newTaskId 5 ''abcde'', loopClient = 7,
            loopTargetJid = ''9198@s.whatsapp.net'', loopPrefix = [],
            messages = [''hi'', ''yo''], suspendedAt = Ended \<rparr>]"
  "evictTimers (run 401 initialServer
     [ConnectionUpdate ''perm_1_2'' ''1'' False 7 1
        \<lparr> connection = Open, statusCode = None, qr = None \<rparr>,
      PostSendMessage exampleRequest 5 ''abcde'',
      SendSettled 0 None 6, DelayElapsed 0 7, SendSettled 0 (Some ''timeout'') 8,
      DelayElapsed 0 9]) = [newTaskId 5 ''abcde'']"
  by (simp_all add: evaluate)


subsection \<open>The capped log of the simulation\<close>

lemma logs_appendLog:
  "logs (appendLog J w t e s) = drop (Suc (length (logs s)) - 2000) (logs s @ [(t, e)])"
  by (simp add: appendLog_def Let_def)

lemma appendLog_persists:
  "w LOGS_FILE \<Longrightarrow>
     files (appendLog J w t e s) LOGS_FILE = Some (stringifyLogs J (logs (appendLog J w t e s)))"
  by (simp add: appendLog_def saveJson_def Let_def)

lemma logs_fold_appendLog:
  "logs (fold (\<lambda>(t, e). appendLog J w t e) (x # xs) s) =
     drop (length (logs s) + Suc (length xs) - 2000) (logs s @ x # xs)"
proof (induction xs arbitrary: s x)
  case Nil
  show ?case by (cases x) (simp add: logs_appendLog)
next
  case (Cons y ys)
  obtain t e where x: "x = (t, e)" by (cases x)
  let ?s1 = "appendLog J w t e s"
  let ?b = "Suc (length (logs s)) - 2000"
  have l1: "logs ?s1 = drop ?b (logs s @ [x])"
    by (simp add: logs_appendLog x)
  have "logs (fold (\<lambda>(t, e). appendLog J w t e) (x # y # ys) s) =
        drop (length (logs ?s1) + Suc (length ys) - 2000) (logs ?s1 @ y # ys)"
    using Cons.IH [of y ?s1] by (simp add: x)
  also have "logs ?s1 @ y # ys = drop ?b (logs s @ x # y # ys)"
    by (simp add: l1)
  also have "drop (length (logs ?s1) + Suc (length ys) - 2000) (drop ?b (logs s @ x # y # ys)) =
        drop (length (logs ?s1) + Suc (length ys) - 2000 + ?b) (logs s @ x # y # ys)"
    by (simp only: drop_drop)
  also have "length (logs ?s1) + Suc (length ys) - 2000 + ?b
      = length (logs s) + Suc (length (y # ys)) - 2000"
    by (simp add: l1)
  finally show ?case .
qed

text \<open>
  Claim C7. Whatever entries are appended to the log, in whatever number, the log
  afterwards holds at most 2000 of them, and they are the last ones of the old log
  followed by the new entries, in the order of insertion: the oldest are the ones
  dropped. This holds from a log within the cap (the empty log of a first start, or a
  log this program wrote), and after the first insertion from any log at all.
\<close>

theorem log_cap_fifo:
  assumes "length (logs s) \<le> 2000 \<or> ins \<noteq> []"
  shows "length (logs (fold (\<lambda>(t, e). appendLog J w t e) ins s)) \<le> 2000
     \<and> logs (fold (\<lambda>(t, e). appendLog J w t e) ins s) =
         drop (length (logs s @ ins) - 2000) (logs s @ ins)"
proof (cases ins)
  case Nil
  with assms show ?thesis by simp
next
  case (Cons x xs)
  have "logs (fold (\<lambda>(t, e). appendLog J w t e) ins s) =
           drop (length (logs s @ ins) - 2000) (logs s @ ins)"
    unfolding Cons by (simp only: logs_fold_appendLog length_append list.size) simp
  then show ?thesis by simp
qed

theorem log_cap_fifo_witness:
  "length (replicate 2000 (0, ReadError [])) \<le> (2000 :: nat)
   \<and> logs (fold (\<lambda>(t, e). appendLog
              \<lparr> stringifyState = (\<lambda>x. []), parseState = Map.empty,
                stringifyLogs = (\<lambda>x. []), parseLogs = Map.empty \<rparr> (\<lambda>p. True) t e)
            [(1, ReadError ''a''), (2, ReadError ''b'')]
            \<lparr> simulation = defaultSimulation ''id'', logs = replicate 2000 (0, ReadError []),
              loopTimer = None, files = Map.empty \<rparr>) =
       replicate 1998 (0, ReadError []) @ [(1, ReadError ''a''), (2, ReadError ''b'')]"
  using log_cap_fifo [of
      "\<lparr> simulation = defaultSimulation ''id'', logs = replicate 2000 (0, ReadError []),
         loopTimer = None, files = Map.empty \<rparr>"
      "[(1, ReadError ''a''), (2, ReadError ''b'')]"
      "\<lparr> stringifyState = (\<lambda>x. []), parseState = Map.empty,
         stringifyLogs = (\<lambda>x. []), parseLogs = Map.empty \<rparr>" "\<lambda>p. True"]
  by simp

subsection \<open>Terminal closure\<close>

text \<open>
  Claim C4. When the handler of a socket gets a close whose status code is the
  provider's logged-out code or 401, the session's entry is gone from the registry
  afterwards, the pending reconnect timers are the ones that were pending before (none
  is added), and the status answer computed from the new state lists no session under
  that id. This holds for every state, so also for a connected session.
\<close>

theorem terminal_close_removes_session:
  assumes "connection u = Close"
    and "statusCode u = Some loggedOut \<or> statusCode u = Some 401"
  shows "Map_get (activeClients (onConnectionUpdate loggedOut sid ph r c now u s)) sid = None
    \<and> reconnectTimers (onConnectionUpdate loggedOut sid ph r c now u s) = reconnectTimers s
    \<and> sid \<notin> set (map status_sessionId
          (fst (getStatus (onConnectionUpdate loggedOut sid ph r c now u s))))"
proof -
  let ?s' = "onConnectionUpdate loggedOut sid ph r c now u s"
  have ac: "activeClients ?s' = Map_delete (activeClients s) sid"
    using assms by (auto simp: onConnectionUpdate_def Let_def)
  have rt: "reconnectTimers ?s' = reconnectTimers s"
    using assms by (auto simp: onConnectionUpdate_def Let_def)
  have "sid \<notin> set (map status_sessionId (fst (getStatus ?s')))"
    using keys_Map_delete [of sid "activeClients s"] by (simp add: status_session_ids ac)
  then show ?thesis by (simp add: ac rt Map_get_delete)
qed

theorem terminal_close_removes_session_witness:
  "connection \<lparr> connection = Close, statusCode = Some 401, qr = None \<rparr> = Close
   \<and> (statusCode \<lparr> connection = Close, statusCode = Some 401, qr = None \<rparr> = Some 401
       \<or> statusCode \<lparr> connection = Close, statusCode = Some 401, qr = None \<rparr> = Some 401)
   \<and> map status_sessionId (fst (getStatus
        (onConnectionUpdate 401 ''perm_1_2'' ''1'' False 7 100
           \<lparr> connection = Open, statusCode = None, qr = None \<rparr> initialServer))) = [''perm_1_2'']
   \<and> Map_get (activeClients
        (onConnectionUpdate 401 ''perm_1_2'' ''1'' False 7 200
           \<lparr> connection = Close, statusCode = Some 401, qr = None \<rparr>
           (onConnectionUpdate 401 ''perm_1_2'' ''1'' False 7 100
              \<lparr> connection = Open, statusCode = None, qr = None \<rparr> initialServer))) ''perm_1_2''
       = None
   \<and> reconnectTimers
        (onConnectionUpdate 401 ''perm_1_2'' ''1'' False 7 200
           \<lparr> connection = Close, statusCode = Some 401, qr = None \<rparr>
           (onConnectionUpdate 401 ''perm_1_2'' ''1'' False 7 100
              \<lparr> connection = Open, statusCode = None, qr = None \<rparr> initialServer)) = []
   \<and> ''perm_1_2'' \<notin> set (map status_sessionId (fst (getStatus
        (onConnectionUpdate 401 ''perm_1_2'' ''1'' False 7 200
           \<lparr> connection = Close, statusCode = Some 401, qr = None \<rparr>
           (onConnectionUpdate 401 ''perm_1_2'' ''1'' False 7 100
              \<lparr> connection = Open, statusCode = None, qr = None \<rparr> initialServer)))))"
  using terminal_close_removes_session
    [of "\<lparr> connection = Close, statusCode = Some 401, qr = None \<rparr>"
      401 "''perm_1_2''" "''1''" False 7 200
      "onConnectionUpdate 401 ''perm_1_2'' ''1'' False 7 100
              \<lparr> connection = Open, statusCode = None, qr = None \<rparr> initialServer"]
  by (simp add: onConnectionUpdate_def initialServer_def Let_def orEmpty_def status_session_ids
      Map_set_def)

subsection \<open>Keep-alive\<close>

lemma keepAliveEntry_effect:
  "activeClients (keepAliveEntry outcome e s) = activeClients s"
  "activeTasks (keepAliveEntry outcome e s) = activeTasks s"
  "reconnectTimers (keepAliveEntry outcome e s) = reconnectTimers s"
  "evictTimers (keepAliveEntry outcome e s) = evictTimers s"
  "loops (keepAliveEntry outcome e s) = loops s"
  "sendCalls (keepAliveEntry outcome e s) = sendCalls s"
  "presenceCalls (keepAliveEntry outcome e s) =
     presenceCalls s @ (case pinged e of None \<Rightarrow> [] | Some c \<Rightarrow> [c])"
  "console (keepAliveEntry outcome e s) =
     console s @ (case pinged e of None \<Rightarrow> [] | Some c \<Rightarrow> [presenceLine outcome (fst e) c])"
  "unhandledRejections (keepAliveEntry outcome e s) =
     unhandledRejections s @
       (case Option.bind (pinged e) (rejection outcome) of None \<Rightarrow> [] | Some r \<Rightarrow> [r])"
  by (cases e; simp add: keepAliveEntry_def pinged_def presenceLine_def rejection_def Let_def
      split: option.splits presenceOutcome.splits)+

lemma keepAlive_fold:
  "activeClients (fold (keepAliveEntry outcome) es s) = activeClients s
   \<and> activeTasks (fold (keepAliveEntry outcome) es s) = activeTasks s
   \<and> reconnectTimers (fold (keepAliveEntry outcome) es s) = reconnectTimers s
   \<and> evictTimers (fold (keepAliveEntry outcome) es s) = evictTimers s
   \<and> loops (fold (keepAliveEntry outcome) es s) = loops s
   \<and> sendCalls (fold (keepAliveEntry outcome) es s) = sendCalls s
   \<and> presenceCalls (fold (keepAliveEntry outcome) es s) =
       presenceCalls s @ List.map_filter pinged es
   \<and> console (fold (keepAliveEntry outcome) es s) =
       console s @ List.map_filter
         (\<lambda>e. map_option (presenceLine outcome (fst e)) (pinged e)) es
   \<and> unhandledRejections (fold (keepAliveEntry outcome) es s) =
       unhandledRejections s @ List.map_filter
         (\<lambda>e. Option.bind (pinged e) (rejection outcome)) es"
proof (induction es arbitrary: s)
  case Nil
  show ?case by (simp add: List.map_filter_simps)
next
  case (Cons e es)
  show ?case
    by (simp add: Cons.IH keepAliveEntry_effect List.map_filter_simps split: option.splits)
qed

lemma keepAlive_effect:
  "activeClients (keepAlive outcome s) = activeClients s"
  "activeTasks (keepAlive outcome s) = activeTasks s"
  "reconnectTimers (keepAlive outcome s) = reconnectTimers s"
  "evictTimers (keepAlive outcome s) = evictTimers s"
  "loops (keepAlive outcome s) = loops s"
  "sendCalls (keepAlive outcome s) = sendCalls s"
  unfolding keepAlive_def using keepAlive_fold [of outcome "activeClients s" s] by simp_all

text \<open>
  One round of the keep-alive ticker leaves the session registry exactly as it was,
  whatever the presence calls do: no entry's \<open>connected\<close>, \<open>lastConnected\<close> or
  \<open>retryCount\<close> changes, and no reconnect is scheduled. The presence calls it makes
  are, in registry order, those for the entries whose \<open>connected\<close> flag is true and
  that have a socket, and no others. For each of these it prints one console line:
  the failure line with the message when the call throws, the ping line otherwise,
  also when the call returns a promise that is rejected; each such rejection is left
  without a handler.
\<close>

lemma keepAlive_frame:
  "activeClients (keepAlive outcome s) = activeClients s
   \<and> reconnectTimers (keepAlive outcome s) = reconnectTimers s
   \<and> presenceCalls (keepAlive outcome s) =
       presenceCalls s @ List.map_filter pinged (activeClients s)
   \<and> console (keepAlive outcome s) =
       console s @ List.map_filter
         (\<lambda>e. map_option (presenceLine outcome (fst e)) (pinged e)) (activeClients s)
   \<and> unhandledRejections (keepAlive outcome s) =
       unhandledRejections s @ List.map_filter
         (\<lambda>e. Option.bind (pinged e) (rejection outcome)) (activeClients s)"
  unfolding keepAlive_def using keepAlive_fold [of outcome "activeClients s" s] by simp

lemma keepAlive_throw_logged:
  "map (\<lambda>e. (client (snd e), connected (snd e), retryCount (snd e)))
       (activeClients (keepAlive (\<lambda>c. Throws ''timeout'')
         (onConnectionUpdate 401 ''perm_3_4'' ''3'' False 8 100
            \<lparr> connection = Open, statusCode = None, qr = None \<rparr> exampleSession))) =
       [(Some 7, Some False, Some 3), (Some 8, Some True, Some 0)]
   \<and> presenceCalls (keepAlive (\<lambda>c. Throws ''timeout'')
      (onConnectionUpdate 401 ''perm_3_4'' ''3'' False 8 100
         \<lparr> connection = Open, statusCode = None, qr = None \<rparr> exampleSession)) = [8]
   \<and> last (console (keepAlive (\<lambda>c. Throws ''timeout'')
      (onConnectionUpdate 401 ''perm_3_4'' ''3'' False 8 100
         \<lparr> connection = Open, statusCode = None, qr = None \<rparr> exampleSession))) =
       KeepAliveFailedLine ''perm_3_4'' ''timeout''
   \<and> \<not> crashed (keepAlive (\<lambda>c. Throws ''timeout'')
      (onConnectionUpdate 401 ''perm_3_4'' ''3'' False 8 100
         \<lparr> connection = Open, statusCode = None, qr = None \<rparr> exampleSession))"
  using keepAlive_frame [of "\<lambda>c. Throws ''timeout''"
      "onConnectionUpdate 401 ''perm_3_4'' ''3'' False 8 100
         \<lparr> connection = Open, statusCode = None, qr = None \<rparr> exampleSession"]
  by (simp add: List.map_filter_simps onConnectionUpdate_def exampleSession_def Let_def
      orEmpty_def Map_set_def pinged_def presenceLine_def rejection_def crashed_def)

text \<open>
  Claim C8 does not hold of the code. The ticker calls \<^verbatim>\<open>sendPresenceUpdate\<close> without
  \<^verbatim>\<open>await\<close> and without a \<^verbatim>\<open>catch\<close> on the promise, so its \<^verbatim>\<open>try\<close> block sees a failure
  only when the call throws. Take the registry with one disconnected session (socket
  7) and one connected session \<^verbatim>\<open>perm_3_4\<close> (socket 8), and a presence call whose
  promise is rejected with the message \<^verbatim>\<open>Connection Closed\<close>. The round makes the one
  call, on socket 8, and leaves the registry as it was; but the failure is not
  logged, the only line printed being the ping line of the session, and it is not
  ignored either: the rejection is left without a handler, which ends the process.
\<close>

theorem keepAlive_rejection_unhandled:
  "presenceCalls (keepAlive (\<lambda>c. Rejects ''Connection Closed'')
      (onConnectionUpdate 401 ''perm_3_4'' ''3'' False 8 100
         \<lparr> connection = Open, statusCode = None, qr = None \<rparr> exampleSession)) = [8]
   \<and> activeClients (keepAlive (\<lambda>c. Rejects ''Connection Closed'')
      (onConnectionUpdate 401 ''perm_3_4'' ''3'' False 8 100
         \<lparr> connection = Open, statusCode = None, qr = None \<rparr> exampleSession)) =
       activeClients (onConnectionUpdate 401 ''perm_3_4'' ''3'' False 8 100
         \<lparr> connection = Open, statusCode = None, qr = None \<rparr> exampleSession)
   \<and> console (keepAlive (\<lambda>c. Rejects ''Connection Closed'')
      (onConnectionUpdate 401 ''perm_3_4'' ''3'' False 8 100
         \<lparr> connection = Open, statusCode = None, qr = None \<rparr> exampleSession)) =
       console (onConnectionUpdate 401 ''perm_3_4'' ''3'' False 8 100
         \<lparr> connection = Open, statusCode = None, qr = None \<rparr> exampleSession)
       @ [KeepAlivePingLine ''perm_3_4'']
   \<and> unhandledRejections (keepAlive (\<lambda>c. Rejects ''Connection Closed'')
      (onConnectionUpdate 401 ''perm_3_4'' ''3'' False 8 100
         \<lparr> connection = Open, statusCode = None, qr = None \<rparr> exampleSession)) =
       [(8, ''Connection Closed'')]
   \<and> crashed (keepAlive (\<lambda>c. Rejects ''Connection Closed'')
      (onConnectionUpdate 401 ''perm_3_4'' ''3'' False 8 100
         \<lparr> connection = Open, statusCode = None, qr = None \<rparr> exampleSession))"
  by (simp add: keepAlive_def keepAliveEntry_def onConnectionUpdate_def exampleSession_def
      Let_def orEmpty_def Map_set_def crashed_def)

subsection \<open>Stopping a task\<close>

text \<open>
  Claim C10. A stop request for a registered task is accepted and stores the task
  with \<open>stopRequested\<close> true and \<open>isSending\<close> false, the other fields unchanged; the
  status answer computed right after reports it so. The request touches no loop and
  makes no call: a loop of that task that is waiting for its \<^verbatim>\<open>sendMessage\<close> is still
  waiting there, and when that send succeeds it is counted, in a task the status
  already reports as not sending.
\<close>

theorem stop_reports_not_sending:
  assumes "tid \<noteq> []" and "Map_get (activeTasks s) tid = Some t"
  shows "fst (postStopTask (Some tid) s) = StopAccepted tid
    \<and> Map_get (activeTasks (snd (postStopTask (Some tid) s))) tid =
        Some (t\<lparr> stopRequested := True, isSending := False \<rparr>)
    \<and> map_option (\<lambda>st. (status_isSending st, status_stopRequested st))
        (find (\<lambda>st. status_taskId st = tid) (snd (getStatus (snd (postStopTask (Some tid) s)))))
        = Some (False, True)
    \<and> loops (snd (postStopTask (Some tid) s)) = loops s
    \<and> sendCalls (snd (postStopTask (Some tid) s)) = sendCalls s
    \<and> (\<forall>j i now. j < length (loops s) \<and> loopTaskId (loops s ! j) = tid
          \<and> suspendedAt (loops s ! j) = Sending i \<longrightarrow>
          Map_get (activeTasks (sendSettled j None now (snd (postStopTask (Some tid) s)))) tid =
            Some (t\<lparr> stopRequested := True, isSending := False,
                    sentMessages := sentMessages t + 1, lastSentAt := Some now \<rparr>))"
proof -
  let ?s' = "snd (postStopTask (Some tid) s)"
  have r: "fst (postStopTask (Some tid) s) = StopAccepted tid"
    using assms by (simp add: postStopTask_def orEmpty_def)
  have a: "activeTasks ?s' =
      Map_set (activeTasks s) tid (t\<lparr> stopRequested := True, isSending := False \<rparr>)"
    using assms by (simp add: postStopTask_def orEmpty_def)
  have g: "Map_get (activeTasks ?s') tid = Some (t\<lparr> stopRequested := True, isSending := False \<rparr>)"
    by (simp add: a Map_get_set)
  have l: "loops ?s' = loops s" and c: "sendCalls ?s' = sendCalls s"
    using assms by (simp_all add: postStopTask_def orEmpty_def)
  have st: "map_option (\<lambda>st. (status_isSending st, status_stopRequested st))
        (find (\<lambda>st. status_taskId st = tid) (snd (getStatus ?s'))) = Some (False, True)"
    by (simp add: status_of_task [OF g] taskSnapshot_def)
  have fl: "Map_get (activeTasks (sendSettled j None now ?s')) tid =
            Some (t\<lparr> stopRequested := True, isSending := False,
                    sentMessages := sentMessages t + 1, lastSentAt := Some now \<rparr>)"
    if "j < length (loops s)" "loopTaskId (loops s ! j) = tid"
      "suspendedAt (loops s ! j) = Sending i"
    for j i now
    using that by (simp add: sendSettled_def l g Let_def Map_get_set)
  show ?thesis using r g st l c fl by blast
qed

theorem stop_reports_not_sending_witness:
  "newTaskId 5 ''abcde'' \<noteq> []
   \<and> map_option sentMessages (Map_get (activeTasks exampleTask) (newTaskId 5 ''abcde'')) = Some 0
   \<and> map suspendedAt (loops exampleTask) = [Sending 0]
   \<and> fst (postStopTask (Some (newTaskId 5 ''abcde'')) exampleTask) =
       StopAccepted (newTaskId 5 ''abcde'')
   \<and> map (\<lambda>st. (status_isSending st, status_stopRequested st, status_sentMessages st))
       (snd (getStatus (snd (postStopTask (Some (newTaskId 5 ''abcde'')) exampleTask)))) =
       [(False, True, 0)]
   \<and> map suspendedAt (loops (snd (postStopTask (Some (newTaskId 5 ''abcde'')) exampleTask))) =
       [Sending 0]
   \<and> map (\<lambda>st. (status_isSending st, status_stopRequested st, status_sentMessages st))
       (snd (getStatus (sendSettled 0 None 9
          (snd (postStopTask (Some (newTaskId 5 ''abcde'')) exampleTask))))) =
       [(False, True, 1)]"
  using stop_reports_not_sending [of "newTaskId 5 ''abcde''" exampleTask
      "snd (hd (activeTasks exampleTask))"]
  by (simp add: exampleTask_tasks newTaskId_nonempty postStopTask_def orEmpty_def
      Map_get_def Map_set_def getStatus_def taskSnapshot_def sendSettled_def Let_def)

subsection \<open>Session selection\<close>

lemma connectedClient_None:
  "connectedClient m = None \<longleftrightarrow>
     \<not> (\<exists>e \<in> set m. connected (snd e) = Some True \<and> client (snd e) \<noteq> None)"
proof (cases "find (\<lambda>(k, info). connected info = Some True \<and> client info \<noteq> None) m")
  case None
  have absent: "connectedClient m = None"
    unfolding connectedClient_def using None by simp
  have "\<not> (\<exists>e \<in> set m. connected (snd e) = Some True \<and> client (snd e) \<noteq> None)"
    using None unfolding find_None_iff by (auto simp: case_prod_unfold)
  with absent show ?thesis by simp
next
  case (Some e)
  then have "e \<in> set m" and "connected (snd e) = Some True \<and> client (snd e) \<noteq> None"
    by (auto simp: find_Some_iff case_prod_unfold)
  moreover have "connectedClient m = client (snd e)"
    unfolding connectedClient_def using Some by (simp add: case_prod_unfold)
  ultimately show ?thesis by auto
qed

lemma no_session_iff:
  "fst (postSendMessage req now suffix s) = NoActiveSession \<longleftrightarrow>
     (case activeClients s of
        [] \<Rightarrow> True
      | (sid, info) # others \<Rightarrow> sid = [] \<or> client info = None)"
  by (simp add: postSendMessage_def Let_def
      split: list.splits option.splits sum.splits prod.splits)

lemma task_started:
  assumes "activeClients s = (sid, info) # others"
    and "sid \<noteq> []"
    and "client info = Some c"
    and "body_target req = Some tgt" "tgt \<noteq> []" "body_targetType req = Some ty" "ty \<noteq> []"
      "body_delaySec req = Some d" "d \<noteq> []" "file_path req = Some p" "p \<noteq> []"
    and "file_text req = Inr raw"
    and "filter (\<lambda>m. length m > 0) (map trim (splitLF raw)) = m # ms"
  shows "fst (postSendMessage req now suffix s) =
           TaskStarted (newTaskId now suffix) sid
             (if ty = ''number'' then toNumberJid (digitsOnly tgt) else tgt) (Suc (length ms))
    \<and> sendCalls (snd (postSendMessage req now suffix s)) =
        sendCalls s @
          [\<lparr> byLoop = length (loops s), iterationIndex = 0, via = c,
             jid = (if ty = ''number'' then toNumberJid (digitsOnly tgt) else tgt),
             body = (if orEmpty (body_prefix req) \<noteq> []
                     then orEmpty (body_prefix req) @ '' '' @ m else m) \<rparr>]"
  using assms
  by (simp add: postSendMessage_def Let_def orEmpty_def iteration_def Map_get_set nth_append)

lemma newSessionId_nonempty: "newSessionId num now \<noteq> []"
  by (simp add: newSessionId_def)

text \<open>
  Claim C9. The handler that starts a task takes the first entry of the session
  registry and never reads its \<open>connected\<close> flag. It answers that there is no active
  session exactly when the registry is empty or that first entry has no socket (or
  has the empty string as its id, which no id made by \<^verbatim>\<open>/code\<close> is). When the first
  entry has a socket and the request is complete, the task is started and the first
  message is handed to that socket at once, whatever the \<open>connected\<close> flag says. The
  group listing, in contrast, answers that no session is connected exactly when no
  entry has a true \<open>connected\<close> flag and a socket.
\<close>

theorem start_task_ignores_connected:
  "(fst (postSendMessage req now suffix s) = NoActiveSession \<longleftrightarrow>
      (case activeClients s of
         [] \<Rightarrow> True
       | (sid, info) # others \<Rightarrow> sid = [] \<or> client info = None))
   \<and> (\<forall>sid info others c tgt ty d p raw m ms.
        activeClients s = (sid, info) # others \<and> sid \<noteq> [] \<and> client info = Some c
        \<and> body_target req = Some tgt \<and> tgt \<noteq> [] \<and> body_targetType req = Some ty \<and> ty \<noteq> []
        \<and> body_delaySec req = Some d \<and> d \<noteq> [] \<and> file_path req = Some p \<and> p \<noteq> []
        \<and> file_text req = Inr raw
        \<and> filter (\<lambda>m. length m > 0) (map trim (splitLF raw)) = m # ms \<longrightarrow>
        fst (postSendMessage req now suffix s) =
           TaskStarted (newTaskId now suffix) sid
             (if ty = ''number'' then toNumberJid (digitsOnly tgt) else tgt) (Suc (length ms))
        \<and> sendCalls (snd (postSendMessage req now suffix s)) =
            sendCalls s @
              [\<lparr> byLoop = length (loops s), iterationIndex = 0, via = c,
                 jid = (if ty = ''number'' then toNumberJid (digitsOnly tgt) else tgt),
                 body = (if orEmpty (body_prefix req) \<noteq> []
                         then orEmpty (body_prefix req) @ '' '' @ m else m) \<rparr>])
   \<and> (fst (getGroups fetch s) = NoSessionConnected \<longleftrightarrow>
        \<not> (\<exists>e \<in> set (activeClients s).
              connected (snd e) = Some True \<and> client (snd e) \<noteq> None))"
proof -
  have "fst (getGroups fetch s) = NoSessionConnected \<longleftrightarrow>
        \<not> (\<exists>e \<in> set (activeClients s).
              connected (snd e) = Some True \<and> client (snd e) \<noteq> None)"
    unfolding connectedClient_None [symmetric]
    by (simp add: getGroups_def Let_def split: option.splits sum.splits)
  then show ?thesis
    using no_session_iff [of req now suffix s]
      task_started [of s _ _ _ _ req _ _ _ _ _ _ _ now suffix]
    by blast
qed

theorem start_task_ignores_connected_witness:
  "map (\<lambda>e. connected (snd e)) (activeClients exampleSession) = [Some False]
   \<and> fst (postSendMessage exampleRequest 5 ''abcde'' exampleSession) =
       TaskStarted (newTaskId 5 ''abcde'') ''perm_1_2'' ''9198@s.whatsapp.net'' 2
   \<and> sendCalls (snd (postSendMessage exampleRequest 5 ''abcde'' exampleSession)) =
       [\<lparr> byLoop = 0, iterationIndex = 0, via = 7, jid = ''9198@s.whatsapp.net'',
          body = ''hi'' \<rparr>]
   \<and> fst (getGroups (\<lambda>c. Inr []) exampleSession) = NoSessionConnected"
  using start_task_ignores_connected [of exampleRequest 5 "''abcde''" exampleSession
      "\<lambda>c. Inr []"]
  by (simp add: exampleSession_def exampleRequest_def trim_def isWhiteSpace_def
      consFirst_def digitsOnly_def isDigit_def toNumberJid_def orEmpty_def)

subsection \<open>Pairing codes\<close>

lemma bitLength_numeral:
  "bitLength 0 = 0"
  "bitLength 1 = 1"
  "bitLength (Suc 0) = 1"
  "bitLength (numeral Num.One) = 1"
  "bitLength (numeral (Num.Bit0 v)) = 1 + bitLength (numeral v)"
  "bitLength (numeral (Num.Bit1 v)) = 1 + bitLength (numeral v)"
  by (subst bitLength.simps, simp add: bitLength.simps)+

text \<open>
  \<open>bitLength n\<close> is the length of \<open>n\<close> in binary, and \<open>roundDouble n\<close> is a
  nearest number to \<open>n\<close> whose \<open>bitLength n - 53\<close> low bits are zero.
\<close>

lemma bitLength_bounds: "n < 2 ^ bitLength n \<and> (n \<noteq> 0 \<longrightarrow> 2 ^ (bitLength n - 1) \<le> n)"
proof (induction n rule: bitLength.induct)
  case (1 n)
  show ?case
  proof (cases "n = 0")
    case True
    then show ?thesis by (simp add: bitLength.simps)
  next
    case False
    from 1 [OF False] have a: "n div 2 < 2 ^ bitLength (n div 2)"
      and b: "n div 2 \<noteq> 0 \<longrightarrow> 2 ^ (bitLength (n div 2) - 1) \<le> n div 2" by simp_all
    have bl: "bitLength n = Suc (bitLength (n div 2))" using False by (subst bitLength.simps) simp
    have "n < 2 * 2 ^ bitLength (n div 2)" using a by linarith
    moreover have "2 ^ bitLength (n div 2) \<le> n"
    proof (cases "n div 2 = 0")
      case True
      then have "n = 1" using False by linarith
      then show ?thesis by (simp add: bitLength.simps)
    next
      case F: False
      then have "bitLength (n div 2) \<noteq> 0" by (subst bitLength.simps) simp
      then obtain j where j: "bitLength (n div 2) = Suc j" by (cases "bitLength (n div 2)") auto
      with b F have "2 ^ j \<le> n div 2" by simp
      then show ?thesis using j by simp
    qed
    ultimately show ?thesis by (simp add: bl)
  qed
qed

lemma roundDouble_nearest:
  "2 ^ (bitLength n - 53) dvd roundDouble n
   \<and> 2 * (roundDouble n - n) \<le> 2 ^ (bitLength n - 53)
   \<and> 2 * (n - roundDouble n) \<le> 2 ^ (bitLength n - 53)"
proof -
  define k where "k = bitLength n - 53"
  define q where "q = n div 2 ^ k"
  define r where "r = n mod 2 ^ k"
  have n: "n = q * 2 ^ k + r"
    unfolding q_def r_def by (rule div_mult_mod_eq [symmetric])
  have r: "r < 2 ^ k"
    by (simp add: r_def)
  have rd: "roundDouble n = (if k = 0 then n
         else if 2 ^ k < 2 * r \<or> (2 * r = 2 ^ k \<and> odd q) then (q + 1) * 2 ^ k
         else q * 2 ^ k)"
    by (simp add: roundDouble_def Let_def k_def q_def r_def)
  show ?thesis
    unfolding k_def [symmetric] rd using r by (auto simp add: n)
qed

lemma roundDouble_exact:
  "bitLength n \<le> 53 \<Longrightarrow> roundDouble n = n"
  by (simp add: roundDouble_def)

lemma roundDouble_examples:
  "roundDouble 0 = 0"
  "roundDouble 900000 = 900000"
  "roundDouble 1100000 = 1100000"
  "roundDouble 135107988821100000 = 135107988821100000"
  "roundDouble 450495070725870700000 = 450495070725870714880"
  "roundDouble 900719925474099200000 = 900719925474099200000"
  "roundDouble 8106479329266891900000 = 8106479329266891751424"
  "roundDouble 9007199254740990951424 = 9007199254740990951424"
  by (simp_all add: roundDouble_def Let_def bitLength_numeral)

text \<open>
  Claim C5, as amended. In \<^verbatim>\<open>GET /code\<close>, once the socket is made and its credentials
  are not registered, the code on the page is what the socket's \<^verbatim>\<open>requestPairingCode\<close>
  returns for the digits of the number when the socket has that function (the error
  page when the call fails), and the fixed text \<^verbatim>\<open>SCAN_QR_FROM_SERVER_LOGS\<close> when it has
  not; with registered credentials the page carries no code. The handler makes no code
  of its own. \<^verbatim>\<open>POST /pair\<close> of the simulation has no provider and does make one:
  the floor of 100000 plus 900000 times the random number, each operation rounded as
  doubles are.
\<close>

theorem pairing_code_delegated_or_sentinel:
  "(orEmpty q \<noteq> [] \<and> \<not> registered sock \<longrightarrow>
      fst (getCode q now (Inr c) sock s) =
        (case requestPairingCode sock of
           None \<Rightarrow> PairingPage SCAN_QR (newSessionId (digitsOnly (orEmpty q)) now)
         | Some request \<Rightarrow>
             (case request (digitsOnly (orEmpty q)) of
                Inl err \<Rightarrow> PairingFailed err
              | Inr code \<Rightarrow> PairingPage code (newSessionId (digitsOnly (orEmpty q)) now))))
   \<and> (orEmpty q \<noteq> [] \<and> registered sock \<longrightarrow>
      fst (getCode q now (Inr c) sock s) =
        AlreadyConnected (newSessionId (digitsOnly (orEmpty q)) now))
   \<and> pairingCode (fst (pair J w t (m, e) n sv)) =
       int (roundDouble (100000 * 2 ^ e + roundDouble (m * 900000)) div 2 ^ e)"
  by (simp add: getCode_def initializeClient_def pair_def Let_def
      split: option.splits sum.splits)

theorem pairing_code_delegated_or_sentinel_witness:
  "fst (getCode (Some ''+91 98'') 5 (Inr 7)
         \<lparr> registered = False, requestPairingCode = Some (\<lambda>n. Inr (''K-'' @ n)) \<rparr>
         initialServer) = PairingPage ''K-9198'' (newSessionId ''9198'' 5)
   \<and> fst (getCode (Some ''+91 98'') 5 (Inr 7)
         \<lparr> registered = False, requestPairingCode = None \<rparr> initialServer) =
       PairingPage ''SCAN_QR_FROM_SERVER_LOGS'' (newSessionId ''9198'' 5)
   \<and> fst (getCode (Some ''+91 98'') 5 (Inr 7)
         \<lparr> registered = True, requestPairingCode = None \<rparr> initialServer) =
       AlreadyConnected (newSessionId ''9198'' 5)"
  using pairing_code_delegated_or_sentinel [of "Some ''+91 98''"
        "\<lparr> registered = False, requestPairingCode = Some (\<lambda>n. Inr (''K-'' @ n)) \<rparr>"
        5 7 initialServer]
    pairing_code_delegated_or_sentinel [of "Some ''+91 98''"
        "\<lparr> registered = False, requestPairingCode = None \<rparr>" 5 7 initialServer]
    pairing_code_delegated_or_sentinel [of "Some ''+91 98''"
        "\<lparr> registered = True, requestPairingCode = None \<rparr>" 5 7 initialServer]
  by (simp add: orEmpty_def digitsOnly_def isDigit_def SCAN_QR_def)

text \<open>
  The claim as stated fails for \<^verbatim>\<open>POST /pair\<close>: with the random number \<open>1 / 2 ^ 1\<close>
  the answer carries the code 550000, which no provider gave and which is not the
  sentinel.
\<close>

theorem pair_makes_its_own_code:
  "pairingCode (fst (pair exampleJson (\<lambda>p. True) 9 (1, 1) (Some ''919999'')
      (boot exampleJson ''abcd1234'' Map.empty))) = 550000
   \<and> String_of_nat 550000 \<noteq> SCAN_QR"
  by (simp add: pair_def Let_def SCAN_QR_def roundDouble_examples)

text \<open>
  The rounding of the doubles shows in the code. With the random number
  \<open>150119987579 / 2 ^ 52\<close> the exact value of \<open>100000 + random * 900000\<close> lies below
  100030, by less than half the distance between two doubles of that size: the sum
  is rounded up to 100030 and that is the code. The least and the greatest random
  number of 53 bits give 100000 and 999999.
\<close>

lemma pair_rounds_as_doubles:
  "pairingCode (fst (pair J w t (150119987579, 52) n sv)) = 100030"
  "\<lfloor>100000 + 150119987579 / 2 ^ 52 * (900000 :: real)\<rfloor> = 100029"
  "pairingCode (fst (pair J w t (0, 53) n sv)) = 100000"
  "pairingCode (fst (pair J w t (2 ^ 53 - 1, 53) n sv)) = 999999"
  by (simp_all add: pair_def Let_def roundDouble_examples floor_eq_iff)

subsection \<open>Restart of the simulation\<close>

lemma boot_after_save:
  assumes "parseState J (stringifyState J sim) = Some sim"
  shows "simulation (boot J rid (saveJson (stringifyState J) True fs SESSIONS_FILE sim)) = sim"
    and "p \<noteq> SESSIONS_FILE \<Longrightarrow>
         files (boot J rid (saveJson (stringifyState J) True fs SESSIONS_FILE sim)) p = fs p"
    and "loopTimer (boot J rid (saveJson (stringifyState J) True fs SESSIONS_FILE sim)) = None"
  using assms by (simp_all add: boot_def saveJson_def loadJson_def)

text \<open>
  Claim C6. Let the snapshot \<open>sim\<close> be one that the runtime's JSON functions write and
  read back unchanged. After \<open>saveJson\<close> has written it and the process has started
  again, the simulation object is \<open>sim\<close>: the same \<open>currentIndex\<close>, target and delay,
  and every other field. If \<open>sim\<close> is marked running and its upload is still on disk
  with more than \<open>currentIndex\<close> lines, the \<^verbatim>\<open>listen\<close> callback starts the loop with the
  interval of \<open>sim\<close>'s delay, and the first tick sends the line at \<open>currentIndex\<close>, not
  the first line, and advances the index from there.
\<close>

theorem snapshot_roundtrip_resumes:
  assumes "parseState J (stringifyState J sim) = Some sim"
  shows "simulation (boot J rid (saveJson (stringifyState J) True fs SESSIONS_FILE sim)) = sim
    \<and> (\<forall>p raw. running sim \<and> filePath sim = Some p \<and> p \<noteq> [] \<and> p \<noteq> SESSIONS_FILE
          \<and> p \<noteq> LOGS_FILE \<and> fs p = Some raw
          \<and> currentIndex sim < length (filter (\<lambda>l. length l > 0) (map trim (splitCRLF raw)))
        \<longrightarrow>
          loopTimer (listening
            (boot J rid (saveJson (stringifyState J) True fs SESSIONS_FILE sim))) =
            Some (delayMs sim)
          \<and> last (logs (loopTick J w now (listening
              (boot J rid (saveJson (stringifyState J) True fs SESSIONS_FILE sim))))) =
            (now, SimulatedSend (simulation.targetType sim) (targetValue sim)
               ((if simulation.prefix sim \<noteq> [] then simulation.prefix sim @ '' '' else [])
                @ filter (\<lambda>l. length l > 0) (map trim (splitCRLF raw)) ! currentIndex sim)
               (currentIndex sim))
          \<and> currentIndex (simulation (loopTick J w now (listening
              (boot J rid (saveJson (stringifyState J) True fs SESSIONS_FILE sim))))) =
            (if currentIndex sim + 1
                  \<ge> length (filter (\<lambda>l. length l > 0) (map trim (splitCRLF raw)))
             then 0 else currentIndex sim + 1))"
proof -
  let ?b = "boot J rid (saveJson (stringifyState J) True fs SESSIONS_FILE sim)"
  note b = boot_after_save [OF assms, where rid = rid and fs = fs]
  have resume: "loopTimer (listening ?b) = Some (delayMs sim)
      \<and> last (logs (loopTick J w now (listening ?b))) =
            (now, SimulatedSend (simulation.targetType sim) (targetValue sim)
               ((if simulation.prefix sim \<noteq> [] then simulation.prefix sim @ '' '' else [])
                @ filter (\<lambda>l. length l > 0) (map trim (splitCRLF raw)) ! currentIndex sim)
               (currentIndex sim))
      \<and> currentIndex (simulation (loopTick J w now (listening ?b))) =
            (if currentIndex sim + 1
                  \<ge> length (filter (\<lambda>l. length l > 0) (map trim (splitCRLF raw)))
             then 0 else currentIndex sim + 1)"
    if "running sim" "filePath sim = Some p" "p \<noteq> []" "p \<noteq> SESSIONS_FILE" "p \<noteq> LOGS_FILE"
      "fs p = Some raw"
      "currentIndex sim < length (filter (\<lambda>l. length l > 0) (map trim (splitCRLF raw)))"
    for p raw
  proof -
    define ls where "ls = filter (\<lambda>l. length l > 0) (map trim (splitCRLF raw))"
    have i: "currentIndex sim < length ls"
      using that(7) unfolding ls_def .
    then have ne: "ls \<noteq> []" by auto
    have l: "listening ?b = ?b\<lparr> loopTimer := Some (delayMs sim) \<rparr>"
      using that by (simp add: listening_def startLoop_def b)
    have r: "readLinesFromFile (files ?b) p = Some ls"
      using that by (simp add: readLinesFromFile_def b ls_def)
    have "loopTimer (listening ?b) = Some (delayMs sim)
      \<and> last (logs (loopTick J w now (listening ?b))) =
            (now, SimulatedSend (simulation.targetType sim) (targetValue sim)
               ((if simulation.prefix sim \<noteq> [] then simulation.prefix sim @ '' '' else [])
                @ ls ! currentIndex sim) (currentIndex sim))
      \<and> currentIndex (simulation (loopTick J w now (listening ?b))) =
            (if currentIndex sim + 1 \<ge> length ls then 0 else currentIndex sim + 1)"
      using that(1,2) i ne unfolding l
      by (simp add: loopTick_def b r Let_def appendLog_def)
    then show ?thesis unfolding ls_def .
  qed
  show ?thesis using b(1) resume by blast
qed

theorem snapshot_roundtrip_resumes_witness:
  "parseState exampleJson (stringifyState exampleJson exampleSimulation) = Some exampleSimulation
   \<and> simulation (boot exampleJson ''zz''
        (saveJson (stringifyState exampleJson) True exampleDisk SESSIONS_FILE exampleSimulation))
       = exampleSimulation
   \<and> loopTimer (listening (boot exampleJson ''zz''
        (saveJson (stringifyState exampleJson) True exampleDisk SESSIONS_FILE exampleSimulation)))
       = Some 5000
   \<and> last (logs (loopTick exampleJson (\<lambda>p. True) 99 (listening (boot exampleJson ''zz''
        (saveJson (stringifyState exampleJson) True exampleDisk SESSIONS_FILE
           exampleSimulation))))) = (99, SimulatedSend ''number'' ''9198'' ''yo c'' 2)
   \<and> currentIndex (simulation (loopTick exampleJson (\<lambda>p. True) 99 (listening
        (boot exampleJson ''zz''
          (saveJson (stringifyState exampleJson) True exampleDisk SESSIONS_FILE
             exampleSimulation))))) = 0"
proof -
  have lines: "filter (\<lambda>l. length l > 0)
      (map trim (splitCRLF (''a'' @ [CHR 0x0D, CHR 0x0A] @ ''b'' @ [CHR 0x0A] @ '' c ''))) =
      [''a'', ''b'', ''c'']"
    by (simp add: trim_def isWhiteSpace_def consFirst_def)
  have rt: "parseState exampleJson (stringifyState exampleJson exampleSimulation) =
      Some exampleSimulation"
    by (simp add: exampleJson_def)
  note th = snapshot_roundtrip_resumes [OF rt, of "''zz''" exampleDisk "\<lambda>p. True" 99]
  have pre: "running exampleSimulation \<and> filePath exampleSimulation = Some ''uploads/f''
      \<and> ''uploads/f'' \<noteq> [] \<and> ''uploads/f'' \<noteq> SESSIONS_FILE \<and> ''uploads/f'' \<noteq> LOGS_FILE
      \<and> exampleDisk ''uploads/f'' =
          Some (''a'' @ [CHR 0x0D, CHR 0x0A] @ ''b'' @ [CHR 0x0A] @ '' c '')
      \<and> currentIndex exampleSimulation < length (filter (\<lambda>l. length l > 0)
          (map trim (splitCRLF (''a'' @ [CHR 0x0D, CHR 0x0A] @ ''b'' @ [CHR 0x0A] @ '' c ''))))"
    unfolding lines
    by (simp add: exampleDisk_def exampleSimulation_def SESSIONS_FILE_def LOGS_FILE_def)
  have vals: "delayMs exampleSimulation = 5000" "simulation.targetType exampleSimulation = ''number''"
    "targetValue exampleSimulation = ''9198''" "simulation.prefix exampleSimulation = ''yo''"
    "currentIndex exampleSimulation = 2"
    by (simp_all add: exampleSimulation_def delayMs_def)
  from th [THEN conjunct2, rule_format, OF pre] th [THEN conjunct1] rt
  show ?thesis
    unfolding lines vals by simp
qed

subsection \<open>What one event does to the tasks\<close>

lemma finish_effect:
  "activeClients (finish j now s) = activeClients s"
  "reconnectTimers (finish j now s) = reconnectTimers s"
  "loops (finish j now s) = (loops s)[j := (loops s ! j)\<lparr> suspendedAt := Ended \<rparr>]"
  "sendCalls (finish j now s) = sendCalls s"
  "Map_get (activeTasks (finish j now s)) k =
     (if k = loopTaskId (loops s ! j)
      then map_option (\<lambda>t. t\<lparr> isSending := False, endedAt := Some now \<rparr>)
             (Map_get (activeTasks s) k)
      else Map_get (activeTasks s) k)"
  by (simp_all add: finish_def Let_def Map_get_set split: option.splits)

lemma initializeClient_tasks:
  "activeTasks (snd (initializeClient sid ph r made s)) = activeTasks s"
  "loops (snd (initializeClient sid ph r made s)) = loops s"
  "sendCalls (snd (initializeClient sid ph r made s)) = sendCalls s"
  by (simp_all add: initializeClient_def Let_def split: sum.splits option.splits)

lemma getCode_tasks:
  "activeTasks (snd (getCode q now made sock s)) = activeTasks s"
  "loops (snd (getCode q now made sock s)) = loops s"
  "sendCalls (snd (getCode q now made sock s)) = sendCalls s"
  using initializeClient_tasks [of "newSessionId (digitsOnly (orEmpty q)) now"
      "digitsOnly (orEmpty q)" False made s]
  by (auto simp: getCode_def Let_def split: sum.splits option.splits prod.splits)

lemma onConnectionUpdate_tasks:
  "activeTasks (onConnectionUpdate lo sid ph r c now u s) = activeTasks s"
  "loops (onConnectionUpdate lo sid ph r c now u s) = loops s"
  "sendCalls (onConnectionUpdate lo sid ph r c now u s) = sendCalls s"
  by (simp_all add: onConnectionUpdate_def Let_def split: connectionState.splits)

lemma reconnectTimerFires_tasks:
  "activeTasks (reconnectTimerFires k made s) = activeTasks s"
  "loops (reconnectTimerFires k made s) = loops s"
  "sendCalls (reconnectTimerFires k made s) = sendCalls s"
proof -
  obtain sid ph origin where t: "reconnectTimers s ! k = (sid, ph, origin)"
    by (cases "reconnectTimers s ! k") auto
  let ?s1 = "s\<lparr> reconnectTimers := take k (reconnectTimers s) @ drop (Suc k) (reconnectTimers s) \<rparr>"
  note i = initializeClient_tasks [of sid ph True made ?s1]
  show "activeTasks (reconnectTimerFires k made s) = activeTasks s"
    "loops (reconnectTimerFires k made s) = loops s"
    "sendCalls (reconnectTimerFires k made s) = sendCalls s"
    using i by (auto simp: reconnectTimerFires_def t Let_def split: sum.splits prod.splits)
qed


lemma postStopTask_effect:
  "loops (snd (postStopTask b s)) = loops s"
  "sendCalls (snd (postStopTask b s)) = sendCalls s"
  "Map_get (activeTasks (snd (postStopTask b s))) k =
     (if k = orEmpty b \<and> orEmpty b \<noteq> []
      then map_option (\<lambda>t. t\<lparr> stopRequested := True, isSending := False \<rparr>)
             (Map_get (activeTasks s) k)
      else Map_get (activeTasks s) k)"
  by (simp_all add: postStopTask_def Map_get_set split: option.splits)

lemma evictTimerFires_effect:
  "loops (evictTimerFires n s) = loops s"
  "sendCalls (evictTimerFires n s) = sendCalls s"
  "Map_get (activeTasks (evictTimerFires n s)) k =
     (if n < length (evictTimers s) \<and> k = evictTimers s ! n then None
      else Map_get (activeTasks s) k)"
  by (simp_all add: evictTimerFires_def Map_get_delete)

lemma sendSettled_idle:
  "\<not> (j < length (loops s) \<and> (\<exists>i. suspendedAt (loops s ! j) = Sending i)) \<Longrightarrow>
     sendSettled j r now s = s"
  by (auto simp: sendSettled_def split: position.splits)

lemma sendSettled_effect:
  assumes "j < length (loops s)" and "suspendedAt (loops s ! j) = Sending i"
  shows "loops (sendSettled j r now s) = (loops s)[j := (loops s ! j)\<lparr> suspendedAt := Sleeping i \<rparr>]"
    and "sendCalls (sendSettled j r now s) = sendCalls s"
    and "Map_get (activeTasks (sendSettled j r now s)) k =
     (if k = loopTaskId (loops s ! j) \<and> r = None
      then map_option (\<lambda>t. t\<lparr> sentMessages := sentMessages t + 1, lastSentAt := Some now \<rparr>)
             (Map_get (activeTasks s) k)
      else Map_get (activeTasks s) k)"
  using assms
  by (simp_all add: sendSettled_def Let_def Map_get_set split: option.splits)

lemma iteration_go:
  assumes "i < length (messages (loops s ! j))"
    and "Map_get (activeTasks s) (loopTaskId (loops s ! j)) = Some t"
    and "\<not> stopRequested t"
  shows "activeTasks (iteration j i now s) = activeTasks s"
    and "loops (iteration j i now s) = (loops s)[j := (loops s ! j)\<lparr> suspendedAt := Sending i \<rparr>]"
    and "\<exists>c. sendCalls (iteration j i now s) = sendCalls s @ [c] \<and> byLoop c = j
           \<and> iterationIndex c = i"
  using assms by (simp_all add: iteration_def Let_def)

lemma iteration_finish:
  assumes "\<not> (i < length (messages (loops s ! j))
      \<and> (\<exists>t. Map_get (activeTasks s) (loopTaskId (loops s ! j)) = Some t \<and> \<not> stopRequested t))"
  shows "loops (iteration j i now s) = (loops s)[j := (loops s ! j)\<lparr> suspendedAt := Ended \<rparr>]"
    and "sendCalls (iteration j i now s) = sendCalls s"
    and "Map_get (activeTasks (iteration j i now s)) k =
     (if k = loopTaskId (loops s ! j)
      then map_option (\<lambda>t. t\<lparr> isSending := False, endedAt := Some now \<rparr>)
             (Map_get (activeTasks s) k)
      else Map_get (activeTasks s) k)"
  using assms
  by (auto simp: iteration_def Let_def finish_effect split: option.splits)

lemma postSendMessage_effect:
  "(activeTasks (snd (postSendMessage req now suffix s)) = activeTasks s
    \<and> loops (snd (postSendMessage req now suffix s)) = loops s
    \<and> sendCalls (snd (postSendMessage req now suffix s)) = sendCalls s)
   \<or> (\<exists>info0 L c.
        activeTasks (snd (postSendMessage req now suffix s)) =
          Map_set (activeTasks s) (newTaskId now suffix) info0
        \<and> totalMessages info0 = length (messages L) \<and> sentMessages info0 = 0
        \<and> \<not> stopRequested info0
        \<and> loops (snd (postSendMessage req now suffix s)) = loops s @ [L]
        \<and> loopTaskId L = newTaskId now suffix \<and> suspendedAt L = Sending 0 \<and> messages L \<noteq> []
        \<and> sendCalls (snd (postSendMessage req now suffix s)) = sendCalls s @ [c]
        \<and> byLoop c = length (loops s) \<and> iterationIndex c = 0)"
  apply (simp add: postSendMessage_def Let_def iteration_def Map_get_set nth_append
      split: list.splits option.splits sum.splits prod.splits)
  apply (intro conjI impI allI)
  apply (rule exI, rule conjI, rule refl, simp)+
  done


text \<open>
  Every event changes the task registry, the loops and the list of send calls in one
  of seven ways.
\<close>

lemma step_cases [case_names Same Update Evict Settle Go Finish Create]:
  obtains
    (Same) "activeTasks (step lo s e) = activeTasks s" "loops (step lo s e) = loops s"
      "sendCalls (step lo s e) = sendCalls s"
  | (Update) tid0 where "loops (step lo s e) = loops s" "sendCalls (step lo s e) = sendCalls s"
      "\<And>k. Map_get (activeTasks (step lo s e)) k =
         (if k = tid0
          then map_option (\<lambda>t. t\<lparr> stopRequested := True, isSending := False \<rparr>)
                 (Map_get (activeTasks s) k)
          else Map_get (activeTasks s) k)"
  | (Evict) tid0 where "loops (step lo s e) = loops s" "sendCalls (step lo s e) = sendCalls s"
      "\<And>k. Map_get (activeTasks (step lo s e)) k =
         (if k = tid0 then None else Map_get (activeTasks s) k)"
  | (Settle) j0 i d now where "j0 < length (loops s)" "suspendedAt (loops s ! j0) = Sending i"
      "loops (step lo s e) = (loops s)[j0 := (loops s ! j0)\<lparr> suspendedAt := Sleeping i \<rparr>]"
      "sendCalls (step lo s e) = sendCalls s" "d \<le> 1"
      "\<And>k. Map_get (activeTasks (step lo s e)) k =
         (if k = loopTaskId (loops s ! j0)
          then map_option (\<lambda>t. t\<lparr> sentMessages := sentMessages t + d,
                                    lastSentAt := (if d = 1 then Some now else lastSentAt t) \<rparr>)
                 (Map_get (activeTasks s) k)
          else Map_get (activeTasks s) k)"
  | (Go) j0 i t c where "j0 < length (loops s)" "suspendedAt (loops s ! j0) = Sleeping i"
      "i + 1 < length (messages (loops s ! j0))"
      "Map_get (activeTasks s) (loopTaskId (loops s ! j0)) = Some t" "\<not> stopRequested t"
      "activeTasks (step lo s e) = activeTasks s"
      "loops (step lo s e) = (loops s)[j0 := (loops s ! j0)\<lparr> suspendedAt := Sending (i + 1) \<rparr>]"
      "sendCalls (step lo s e) = sendCalls s @ [c]" "byLoop c = j0" "iterationIndex c = i + 1"
  | (Finish) j0 i now where "j0 < length (loops s)" "suspendedAt (loops s ! j0) = Sleeping i"
      "loops (step lo s e) = (loops s)[j0 := (loops s ! j0)\<lparr> suspendedAt := Ended \<rparr>]"
      "sendCalls (step lo s e) = sendCalls s"
      "\<And>k. Map_get (activeTasks (step lo s e)) k =
         (if k = loopTaskId (loops s ! j0)
          then map_option (\<lambda>t. t\<lparr> isSending := False, endedAt := Some now \<rparr>)
                 (Map_get (activeTasks s) k)
          else Map_get (activeTasks s) k)"
  | (Create) req now suffix info0 L c where "e = PostSendMessage req now suffix"
      "activeTasks (step lo s e) = Map_set (activeTasks s) (newTaskId now suffix) info0"
      "totalMessages info0 = length (messages L)" "sentMessages info0 = 0"
      "\<not> stopRequested info0"
      "loops (step lo s e) = loops s @ [L]" "loopTaskId L = newTaskId now suffix"
      "suspendedAt L = Sending 0" "messages L \<noteq> []"
      "sendCalls (step lo s e) = sendCalls s @ [c]" "byLoop c = length (loops s)"
      "iterationIndex c = 0"
proof (cases e)
  case (GetCode q now made sock)
  then show ?thesis using Same by (simp add: getCode_tasks)
next
  case (ConnectionUpdate sid ph r c now u)
  then show ?thesis using Same by (simp add: onConnectionUpdate_tasks)
next
  case (ReconnectTimerFires k made)
  then show ?thesis using Same by (simp add: reconnectTimerFires_tasks)
next
  case (KeepAliveTick outcome)
  then show ?thesis using Same by (simp add: keepAlive_effect)
next
  case (PostSendMessage req now suffix)
  then show ?thesis
    using postSendMessage_effect [of req now suffix s] Same Create [of req now suffix]
    by auto
next
  case (PostStopTask b)
  show ?thesis
  proof (cases "orEmpty b = []")
    case True
    then show ?thesis using Same PostStopTask by (simp add: postStopTask_def)
  next
    case False
    then show ?thesis
      using Update [of "orEmpty b"] PostStopTask by (simp add: postStopTask_effect)
  qed
next
  case (SendSettled j r now)
  show ?thesis
  proof (cases "j < length (loops s) \<and> (\<exists>i. suspendedAt (loops s ! j) = Sending i)")
    case False
    then show ?thesis using Same SendSettled by (simp add: sendSettled_idle)
  next
    case True
    then obtain i where i: "j < length (loops s)" "suspendedAt (loops s ! j) = Sending i"
      by blast
    show ?thesis
      using Settle [of j i "if r = None then 1 else 0" now] i SendSettled
      by (auto simp: sendSettled_effect [OF i] option.map_ident cong: option.map_cong)
  qed
next
  case (DelayElapsed j now)
  show ?thesis
  proof (cases "j < length (loops s) \<and> (\<exists>i. suspendedAt (loops s ! j) = Sleeping i)")
    case False
    then have "delayElapsed j now s = s"
      by (auto simp: delayElapsed_def split: position.splits)
    then show ?thesis using Same DelayElapsed by simp
  next
    case True
    then obtain i where i: "j < length (loops s)" "suspendedAt (loops s ! j) = Sleeping i"
      by blast
    then have d: "delayElapsed j now s = iteration j (i + 1) now s"
      by (simp add: delayElapsed_def)
    show ?thesis
    proof (cases "i + 1 < length (messages (loops s ! j))
      \<and> (\<exists>t. Map_get (activeTasks s) (loopTaskId (loops s ! j)) = Some t \<and> \<not> stopRequested t)")
      case True
      then obtain t where t: "i + 1 < length (messages (loops s ! j))"
        "Map_get (activeTasks s) (loopTaskId (loops s ! j)) = Some t" "\<not> stopRequested t"
        by blast
      obtain c where "sendCalls (iteration j (i + 1) now s) = sendCalls s @ [c]"
        "byLoop c = j" "iterationIndex c = i + 1"
        using iteration_go(3) [OF t] by blast
      then show ?thesis
        using Go [of j i t c] i t DelayElapsed iteration_go(1,2) [OF t] by (simp add: d)
    next
      case False
      show ?thesis
        using Finish [of j i now] i DelayElapsed iteration_finish [OF False]
        by (simp add: d)
    qed
  qed
next
  case (EvictTimerFires n)
  show ?thesis
  proof (cases "n < length (evictTimers s)")
    case True
    then show ?thesis
      using Evict [of "evictTimers s ! n"] EvictTimerFires by (simp add: evictTimerFires_effect)
  next
    case False
    then show ?thesis using Same EvictTimerFires by (simp add: evictTimerFires_def)
  qed
qed


lemma map_update_same: "f x = f (xs ! j) \<Longrightarrow> map f (xs[j := x]) = map f xs"
  by (induction xs arbitrary: j) (auto split: nat.splits)

lemma distinct_ids_unique:
  assumes "distinct (map loopTaskId ls)" "i < length ls" "j < length ls"
    "loopTaskId (ls ! i) = loopTaskId (ls ! j)"
  shows "i = j"
  using assms nth_eq_iff_index_eq [of "map loopTaskId ls" i j] by simp

lemma ids_step:
  "freshId s e \<Longrightarrow> distinct (map loopTaskId (loops s)) \<Longrightarrow>
     distinct (map loopTaskId (loops (step lo s e)))"
  "set (map loopTaskId (loops s)) \<subseteq> set (map loopTaskId (loops (step lo s e)))"
  by (cases rule: step_cases [of lo s e]; simp add: map_update_same; fastforce)+


subsection \<open>Stop before the next message\<close>

lemma stoppedAt_step:
  assumes "stoppedAt j k s" and "freshId s e"
  shows "stoppedAt j k (step lo s e)
    \<and> loopTaskId (loops (step lo s e) ! j) = loopTaskId (loops s ! j)
    \<and> filter (\<lambda>c. byLoop c = j) (sendCalls (step lo s e)) =
        filter (\<lambda>c. byLoop c = j) (sendCalls s)"
proof -
  have j: "j < length (loops s)"
    and pos: "suspendedAt (loops s ! j) = Sleeping k \<or> suspendedAt (loops s ! j) = Ended"
    and flag: "\<And>t. Map_get (activeTasks s) (loopTaskId (loops s ! j)) = Some t \<Longrightarrow> stopRequested t"
    using assms(1) by (auto simp: stoppedAt_def)
  show ?thesis
  proof (cases rule: step_cases [of lo s e])
    case Same
    then show ?thesis using assms(1) by (simp add: stoppedAt_def)
  next
    case (Update tid0)
    then show ?thesis using j pos flag
      by (auto simp: stoppedAt_def split: option.splits)
  next
    case (Evict tid0)
    then show ?thesis using j pos flag
      by (auto simp: stoppedAt_def split: option.splits)
  next
    case (Settle j0 i d now)
    then have "j0 \<noteq> j" using pos by auto
    then show ?thesis using Settle j pos flag
      by (auto simp: stoppedAt_def split: option.splits)
  next
    case (Go j0 i t c)
    have "j0 \<noteq> j"
    proof
      assume "j0 = j"
      then have "stopRequested t" using Go(4) flag by simp
      then show False using Go(5) by simp
    qed
    then show ?thesis using Go j pos flag
      by (auto simp: stoppedAt_def split: option.splits)
  next
    case (Finish j0 i now)
    then show ?thesis using j pos flag
      by (cases "j0 = j") (auto simp: stoppedAt_def split: option.splits)
  next
    case (Create req now suffix info0 L c)
    have "loopTaskId (loops s ! j) \<in> set (map loopTaskId (loops s))"
      using j by simp
    then have ne: "newTaskId now suffix \<noteq> loopTaskId (loops s ! j)"
      using assms(2) Create(1) by auto
    then show ?thesis using Create j pos flag
      by (auto simp: stoppedAt_def nth_append Map_get_set split: option.splits)
  qed
qed

lemma stoppedAt_run:
  assumes "stoppedAt j k s" and "freshIds lo s evs"
  shows "stoppedAt j k (run lo s evs)
    \<and> filter (\<lambda>c. byLoop c = j) (sendCalls (run lo s evs)) =
        filter (\<lambda>c. byLoop c = j) (sendCalls s)"
  using assms
proof (induction evs arbitrary: s)
  case Nil
  then show ?case by simp
next
  case (Cons e evs)
  then show ?case using stoppedAt_step [of j k s e lo] by simp
qed

lemma stoppedAt_wakes_to_end:
  assumes "stoppedAt j k s"
  shows "suspendedAt (loops (delayElapsed j now s) ! j) = Ended"
proof -
  have j: "j < length (loops s)"
    and pos: "suspendedAt (loops s ! j) = Sleeping k \<or> suspendedAt (loops s ! j) = Ended"
    and flag: "\<And>t. Map_get (activeTasks s) (loopTaskId (loops s ! j)) = Some t \<Longrightarrow> stopRequested t"
    using assms(1) by (auto simp: stoppedAt_def)
  from pos show ?thesis
  proof
    assume "suspendedAt (loops s ! j) = Ended"
    then show ?thesis by (simp add: delayElapsed_def j)
  next
    assume sl: "suspendedAt (loops s ! j) = Sleeping k"
    have "\<not> (k + 1 < length (messages (loops s ! j))
      \<and> (\<exists>t. Map_get (activeTasks s) (loopTaskId (loops s ! j)) = Some t \<and> \<not> stopRequested t))"
      using flag by blast
    from iteration_finish(1) [OF this] show ?thesis
      using j sl by (simp add: delayElapsed_def)
  qed
qed

text \<open>
  Claim C2. Let loop \<open>j\<close> wait in the delay after its iteration \<open>k\<close> (its message
  \<open>k\<close>, counted from 0, has been sent and iteration \<open>k + 1\<close> has not begun), and let a
  stop request for its task be accepted then. Whatever events follow, as long as no
  new task is given an id already used, the calls of \<^verbatim>\<open>sendMessage\<close> made by loop \<open>j\<close>
  are the ones it had made before the stop: message \<open>k + 1\<close> is never sent, nor any
  later one. And when the delay of loop \<open>j\<close> elapses, after any such events, the loop
  has ended.
\<close>

theorem stop_prevents_next_send:
  assumes "j < length (loops s)"
    and "suspendedAt (loops s ! j) = Sleeping k"
    and "fst (postStopTask (Some (loopTaskId (loops s ! j))) s) =
           StopAccepted (loopTaskId (loops s ! j))"
    and "freshIds lo (snd (postStopTask (Some (loopTaskId (loops s ! j))) s)) evs"
  shows "filter (\<lambda>c. byLoop c = j)
           (sendCalls (run lo (snd (postStopTask (Some (loopTaskId (loops s ! j))) s)) evs)) =
         filter (\<lambda>c. byLoop c = j) (sendCalls s)
    \<and> (\<forall>now. suspendedAt (loops (run lo (snd (postStopTask (Some (loopTaskId (loops s ! j))) s))
                  (evs @ [DelayElapsed j now])) ! j) = Ended)"
proof -
  let ?tid = "loopTaskId (loops s ! j)"
  let ?s' = "snd (postStopTask (Some ?tid) s)"
  have ne: "?tid \<noteq> []"
    using assms(3) by (auto simp: postStopTask_def orEmpty_def split: if_splits)
  have st: "stoppedAt j k ?s'"
    using assms(1,2) ne
    by (simp add: stoppedAt_def postStopTask_effect orEmpty_def split: option.splits)
  have calls: "sendCalls ?s' = sendCalls s"
    by (simp add: postStopTask_effect)
  note r = stoppedAt_run [OF st assms(4)]
  have "suspendedAt (loops (run lo ?s' (evs @ [DelayElapsed j now])) ! j) = Ended" for now
    using stoppedAt_wakes_to_end [OF r [THEN conjunct1], of now] by (simp add: run_append)
  then show ?thesis using r calls by simp
qed


theorem stop_prevents_next_send_witness:
  "0 < length (loops (sendSettled 0 None 6 exampleTask))
   \<and> suspendedAt (loops (sendSettled 0 None 6 exampleTask) ! 0) = Sleeping 0
   \<and> fst (postStopTask (Some (newTaskId 5 ''abcde'')) (sendSettled 0 None 6 exampleTask)) =
       StopAccepted (newTaskId 5 ''abcde'')
   \<and> freshIds 401
       (snd (postStopTask (Some (newTaskId 5 ''abcde'')) (sendSettled 0 None 6 exampleTask)))
       [KeepAliveTick (\<lambda>c. Returns), SendSettled 0 None 7]
   \<and> map iterationIndex (filter (\<lambda>c. byLoop c = 0)
       (sendCalls (run 401
          (snd (postStopTask (Some (newTaskId 5 ''abcde'')) (sendSettled 0 None 6 exampleTask)))
          [KeepAliveTick (\<lambda>c. Returns), SendSettled 0 None 7]))) = [0]
   \<and> suspendedAt (loops (run 401
          (snd (postStopTask (Some (newTaskId 5 ''abcde'')) (sendSettled 0 None 6 exampleTask)))
          ([KeepAliveTick (\<lambda>c. Returns), SendSettled 0 None 7] @ [DelayElapsed 0 8])) ! 0) = Ended"
proof -
  have s: "loops (sendSettled 0 None 6 exampleTask) =
      [\<lparr> loopTaskId = newTaskId 5 ''abcde'', loopClient = 7,
         loopTargetJid = ''9198@s.whatsapp.net'', loopPrefix = [],
         messages = [''hi'', ''yo''], suspendedAt = Sleeping 0 \<rparr>]"
    "sendCalls (sendSettled 0 None 6 exampleTask) =
      [\<lparr> byLoop = 0, iterationIndex = 0, via = 7, jid = ''9198@s.whatsapp.net'',
         body = ''hi'' \<rparr>]"
    "map fst (activeTasks (sendSettled 0 None 6 exampleTask)) = [newTaskId 5 ''abcde'']"
    by (simp_all add: exampleTask_eq sendSettled_def Let_def Map_get_def Map_set_def say_def)
  have a: "fst (postStopTask (Some (newTaskId 5 ''abcde'')) (sendSettled 0 None 6 exampleTask)) =
       StopAccepted (newTaskId 5 ''abcde'')"
    by (simp add: postStopTask_def orEmpty_def newTaskId_nonempty Map_get_def
        exampleTask_eq sendSettled_def Let_def Map_set_def say_def)
  have f: "freshIds 401
       (snd (postStopTask (Some (newTaskId 5 ''abcde'')) (sendSettled 0 None 6 exampleTask)))
       [KeepAliveTick (\<lambda>c. Returns), SendSettled 0 None 7]"
    by simp
  from stop_prevents_next_send [of 0 "sendSettled 0 None 6 exampleTask" 0 401
      "[KeepAliveTick (\<lambda>c. Returns), SendSettled 0 None 7]"]
  show ?thesis using a f by (simp add: s)
qed

subsection \<open>The count of sent messages\<close>

lemma Map_get_None_iff: "Map_get m k = None \<longleftrightarrow> k \<notin> set (map fst m)"
  unfolding Map_get_def by (simp add: map_of_eq_None_iff)

lemma taskInv_alt:
  "taskInv s \<longleftrightarrow>
     distinct (map loopTaskId (loops s))
     \<and> (\<forall>j < length (loops s).
          withinMessages (loops s ! j)
          \<and> (\<forall>t. Map_get (activeTasks s) (loopTaskId (loops s ! j)) = Some t \<longrightarrow>
                totalMessages t = length (messages (loops s ! j))
                \<and> sentMessages t \<le> progress (loops s ! j)))
     \<and> (\<forall>k t. Map_get (activeTasks s) k = Some t \<longrightarrow> k \<in> set (map loopTaskId (loops s)))"
proof -
  have a: "(\<forall>k \<in> set (map fst (activeTasks s)). k \<in> set (map loopTaskId (loops s))) \<longleftrightarrow>
      (\<forall>k t. Map_get (activeTasks s) k = Some t \<longrightarrow> k \<in> set (map loopTaskId (loops s)))"
    using Map_get_None_iff [of "activeTasks s"] by (metis not_None_eq)
  have b: "(\<forall>l \<in> set (loops s).
          withinMessages l
          \<and> (case Map_get (activeTasks s) (loopTaskId l) of
               None \<Rightarrow> True
             | Some t \<Rightarrow> totalMessages t = length (messages l) \<and> sentMessages t \<le> progress l))
     \<longleftrightarrow> (\<forall>j < length (loops s).
          withinMessages (loops s ! j)
          \<and> (\<forall>t. Map_get (activeTasks s) (loopTaskId (loops s ! j)) = Some t \<longrightarrow>
                totalMessages t = length (messages (loops s ! j))
                \<and> sentMessages t \<le> progress (loops s ! j)))"
    unfolding all_set_conv_all_nth by (auto split: option.splits)
  show ?thesis unfolding taskInv_def a b ..
qed

lemma taskInv_initial: "taskInv initialServer"
  by (simp add: taskInv_def initialServer_def)

lemma taskInv_step:
  assumes inv: "taskInv s" and fresh: "freshId s e"
  shows "taskInv (step lo s e)"
proof -
  have d: "distinct (map loopTaskId (loops s))"
    and l: "\<And>j t. j < length (loops s) \<Longrightarrow> withinMessages (loops s ! j)"
    and b: "\<And>j t. j < length (loops s) \<Longrightarrow>
        Map_get (activeTasks s) (loopTaskId (loops s ! j)) = Some t \<Longrightarrow>
        totalMessages t = length (messages (loops s ! j))
        \<and> sentMessages t \<le> progress (loops s ! j)"
    and k: "\<And>k t. Map_get (activeTasks s) k = Some t \<Longrightarrow> k \<in> set (map loopTaskId (loops s))"
    using inv unfolding taskInv_alt by blast+
  note u = distinct_ids_unique [OF d]
  have d': "distinct (map loopTaskId (loops (step lo s e)))"
    using ids_step(1) [OF fresh d] .
  have "(\<forall>j < length (loops (step lo s e)).
          withinMessages (loops (step lo s e) ! j)
          \<and> (\<forall>t. Map_get (activeTasks (step lo s e)) (loopTaskId (loops (step lo s e) ! j)) = Some t
                \<longrightarrow> totalMessages t = length (messages (loops (step lo s e) ! j))
                \<and> sentMessages t \<le> progress (loops (step lo s e) ! j)))
     \<and> (\<forall>k t. Map_get (activeTasks (step lo s e)) k = Some t \<longrightarrow>
            k \<in> set (map loopTaskId (loops (step lo s e))))"
  proof (cases rule: step_cases [of lo s e])
    case Same
    then show ?thesis using l b k by simp
  next
    case (Update tid0)
    then show ?thesis using l b k by (auto split: if_splits)
  next
    case (Evict tid0)
    then show ?thesis using l b k by (auto split: if_splits)
  next
    case (Settle j0 i d now)
    have w: "i < length (messages (loops s ! j0))"
      using l [OF Settle(1)] Settle(2) by (simp add: withinMessages_def)
    have other: "loopTaskId (loops s ! j) \<noteq> loopTaskId (loops s ! j0)"
      if "j < length (loops s)" "j \<noteq> j0" for j
      using u [OF that(1) Settle(1)] that(2) by blast
    show ?thesis
    proof (intro conjI allI impI)
      fix j assume j: "j < length (loops (step lo s e))"
      then have j': "j < length (loops s)" by (simp add: Settle(3))
      show "withinMessages (loops (step lo s e) ! j)"
        using l [OF j'] w j' Settle(1)
        by (auto simp: Settle(3) nth_list_update withinMessages_def)
      fix t assume t: "Map_get (activeTasks (step lo s e)) (loopTaskId (loops (step lo s e) ! j)) = Some t"
      show "totalMessages t = length (messages (loops (step lo s e) ! j))"
        and "sentMessages t \<le> progress (loops (step lo s e) ! j)"
        using t b [OF j'] b [OF Settle(1)] other [OF j'] j' Settle(1,2,5)
        by (auto simp: Settle(3,6) nth_list_update progress_def split: if_splits)
    next
      fix k' t assume "Map_get (activeTasks (step lo s e)) k' = Some t"
      then show "k' \<in> set (map loopTaskId (loops (step lo s e)))"
        using k by (auto simp: Settle(3,6) map_update_same split: if_splits)
    qed
  next
    case (Go j0 i t c)
    show ?thesis
    proof (intro conjI allI impI)
      fix j assume j: "j < length (loops (step lo s e))"
      then have j': "j < length (loops s)" by (simp add: Go(7))
      show "withinMessages (loops (step lo s e) ! j)"
        using l [OF j'] j' Go(1,3)
        by (auto simp: Go(7) nth_list_update withinMessages_def)
      fix t' assume t: "Map_get (activeTasks (step lo s e)) (loopTaskId (loops (step lo s e) ! j)) = Some t'"
      show "totalMessages t' = length (messages (loops (step lo s e) ! j))"
        and "sentMessages t' \<le> progress (loops (step lo s e) ! j)"
        using t b [OF j'] b [OF Go(1)] j' Go(1,2)
        by (auto simp: Go(6,7) nth_list_update progress_def split: if_splits)
    next
      fix k' t' assume "Map_get (activeTasks (step lo s e)) k' = Some t'"
      then show "k' \<in> set (map loopTaskId (loops (step lo s e)))"
        using k by (auto simp: Go(6,7) map_update_same)
    qed
  next
    case (Finish j0 i now)
    have w: "i < length (messages (loops s ! j0))"
      using l [OF Finish(1)] Finish(2) by (simp add: withinMessages_def)
    have other: "loopTaskId (loops s ! j) \<noteq> loopTaskId (loops s ! j0)"
      if "j < length (loops s)" "j \<noteq> j0" for j
      using u [OF that(1) Finish(1)] that(2) by blast
    show ?thesis
    proof (intro conjI allI impI)
      fix j assume j: "j < length (loops (step lo s e))"
      then have j': "j < length (loops s)" by (simp add: Finish(3))
      show "withinMessages (loops (step lo s e) ! j)"
        using l [OF j'] j' Finish(1)
        by (auto simp: Finish(3) nth_list_update withinMessages_def)
      fix t assume t: "Map_get (activeTasks (step lo s e)) (loopTaskId (loops (step lo s e) ! j)) = Some t"
      show "totalMessages t = length (messages (loops (step lo s e) ! j))"
        and "sentMessages t \<le> progress (loops (step lo s e) ! j)"
        using t b [OF j'] b [OF Finish(1)] other [OF j'] j' Finish(1,2) w
        by (auto simp: Finish(3,5) nth_list_update progress_def split: if_splits)
    next
      fix k' t assume "Map_get (activeTasks (step lo s e)) k' = Some t"
      then show "k' \<in> set (map loopTaskId (loops (step lo s e)))"
        using k by (auto simp: Finish(3,5) map_update_same split: if_splits)
    qed
  next
    case (Create req now suffix info0 L c)
    have fr: "newTaskId now suffix \<notin> set (map loopTaskId (loops s))"
      using fresh Create(1) by simp
    show ?thesis
    proof (intro conjI allI impI)
      fix j assume j: "j < length (loops (step lo s e))"
      then have jj: "j < length (loops s) \<or> j = length (loops s)"
        by (auto simp: Create(6))
      then show "withinMessages (loops (step lo s e) ! j)"
        using l Create(8,9) by (auto simp: Create(6) nth_append withinMessages_def)
      fix t assume t: "Map_get (activeTasks (step lo s e)) (loopTaskId (loops (step lo s e) ! j)) = Some t"
      have "totalMessages t = length (messages (loops (step lo s e) ! j))
          \<and> sentMessages t \<le> progress (loops (step lo s e) ! j)"
      proof (cases "j < length (loops s)")
        case True
        then have "loopTaskId (loops s ! j) \<in> set (map loopTaskId (loops s))"
          by simp
        then have "loopTaskId (loops s ! j) \<noteq> newTaskId now suffix"
          using fr by metis
        then show ?thesis
          using t b [OF True] True
          by (auto simp: Create(2,6) nth_append Map_get_set progress_def)
      next
        case False
        then have "j = length (loops s)" using jj by simp
        then show ?thesis
          using t Create(3,4,7,8)
          by (auto simp: Create(2,6) nth_append Map_get_set progress_def)
      qed
      then show "totalMessages t = length (messages (loops (step lo s e) ! j))"
        and "sentMessages t \<le> progress (loops (step lo s e) ! j)"
        by simp_all
    next
      fix k' t assume "Map_get (activeTasks (step lo s e)) k' = Some t"
      then show "k' \<in> set (map loopTaskId (loops (step lo s e)))"
        using k Create(7) by (auto simp: Create(2,6) Map_get_set split: if_splits)
    qed
  qed
  then show ?thesis unfolding taskInv_alt using d' by blast
qed

lemma taskInv_run:
  assumes "taskInv s" and "freshIds lo s evs"
  shows "taskInv (run lo s evs)"
  using assms
proof (induction evs arbitrary: s)
  case Nil
  then show ?case by simp
next
  case (Cons e evs)
  then show ?case using taskInv_step [of s e lo] by simp
qed


lemma entry_step_back:
  assumes "freshId s e" and "tid \<in> set (map loopTaskId (loops s))"
    and "Map_get (activeTasks (step lo s e)) tid = Some t'"
  shows "\<exists>t. Map_get (activeTasks s) tid = Some t \<and> sentMessages t \<le> sentMessages t'
           \<and> totalMessages t' = totalMessages t"
proof (cases rule: step_cases [of lo s e])
  case (Create req now suffix info0 L c)
  then have "newTaskId now suffix \<noteq> tid" using assms(1,2) by auto
  then show ?thesis using assms(3) by (simp add: Create(2) Map_get_set)
qed (use assms(3) in \<open>auto split: if_splits\<close>)

lemma entry_run_back:
  assumes "freshIds lo s evs" and "tid \<in> set (map loopTaskId (loops s))"
    and "Map_get (activeTasks (run lo s evs)) tid = Some t'"
  shows "\<exists>t. Map_get (activeTasks s) tid = Some t \<and> sentMessages t \<le> sentMessages t'
           \<and> totalMessages t' = totalMessages t"
  using assms
proof (induction evs arbitrary: s)
  case Nil
  then show ?case by simp
next
  case (Cons e evs)
  have "tid \<in> set (map loopTaskId (loops (step lo s e)))"
    using ids_step(2) [of s lo e] Cons.prems(2) by blast
  then obtain t1 where t1: "Map_get (activeTasks (step lo s e)) tid = Some t1"
    "sentMessages t1 \<le> sentMessages t'" "totalMessages t' = totalMessages t1"
    using Cons.IH [of "step lo s e"] Cons.prems(1,3) by auto
  obtain t where "Map_get (activeTasks s) tid = Some t" "sentMessages t \<le> sentMessages t1"
    "totalMessages t1 = totalMessages t"
    using entry_step_back [OF _ Cons.prems(2) t1(1)] Cons.prems(1) by auto
  then show ?case using t1 by auto
qed

lemma ended_step:
  assumes "freshId s e" and "tid \<in> set (map loopTaskId (loops s))"
    and "\<forall>j < length (loops s). loopTaskId (loops s ! j) = tid \<longrightarrow>
           suspendedAt (loops s ! j) = Ended"
  shows "(\<forall>j < length (loops (step lo s e)). loopTaskId (loops (step lo s e) ! j) = tid \<longrightarrow>
           suspendedAt (loops (step lo s e) ! j) = Ended)
    \<and> (\<forall>t'. Map_get (activeTasks (step lo s e)) tid = Some t' \<longrightarrow>
          (\<exists>t. Map_get (activeTasks s) tid = Some t \<and> sentMessages t' = sentMessages t))"
proof (cases rule: step_cases [of lo s e])
  case Same
  then show ?thesis using assms(3) by simp
next
  case (Update tid0)
  then show ?thesis using assms(3) by (auto split: if_splits)
next
  case (Evict tid0)
  then show ?thesis using assms(3) by (auto split: if_splits)
next
  case (Settle j0 i d now)
  then have "loopTaskId (loops s ! j0) \<noteq> tid" using assms(3) by auto
  then show ?thesis using assms(3) Settle(1)
    by (auto simp: Settle(3,6) nth_list_update)
next
  case (Go j0 i t c)
  then have "loopTaskId (loops s ! j0) \<noteq> tid" using assms(3) by auto
  then show ?thesis using assms(3) Go(1)
    by (auto simp: Go(6,7) nth_list_update)
next
  case (Finish j0 i now)
  then have "loopTaskId (loops s ! j0) \<noteq> tid" using assms(3) by auto
  then show ?thesis using assms(3) Finish(1)
    by (auto simp: Finish(3,5) nth_list_update)
next
  case (Create req now suffix info0 L c)
  then have "newTaskId now suffix \<noteq> tid" using assms(1,2) by auto
  then show ?thesis using assms(3) Create(7)
    by (auto simp: Create(2,6) Map_get_set nth_append)
qed

lemma ended_run:
  assumes "freshIds lo s evs" and "tid \<in> set (map loopTaskId (loops s))"
    and "\<forall>j < length (loops s). loopTaskId (loops s ! j) = tid \<longrightarrow>
           suspendedAt (loops s ! j) = Ended"
    and "Map_get (activeTasks (run lo s evs)) tid = Some t'"
  shows "\<exists>t. Map_get (activeTasks s) tid = Some t \<and> sentMessages t' = sentMessages t"
  using assms
proof (induction evs arbitrary: s)
  case Nil
  then show ?case by simp
next
  case (Cons e evs)
  note st = ended_step [OF _ Cons.prems(2,3), of e lo]
  have f: "freshId s e" "freshIds lo (step lo s e) evs" using Cons.prems(1) by simp_all
  have "tid \<in> set (map loopTaskId (loops (step lo s e)))"
    using ids_step(2) [of s lo e] Cons.prems(2) by blast
  then obtain t1 where t1: "Map_get (activeTasks (step lo s e)) tid = Some t1"
    "sentMessages t' = sentMessages t1"
    using Cons.IH [of "step lo s e"] f(2) st [OF f(1)] Cons.prems(4) by auto
  then show ?case using st [OF f(1)] by auto
qed

text \<open>
  Claim C3. Take any state \<open>s\<close> the process reaches from its start, task ids being
  unique. Every registered task has counted at most \<open>totalMessages\<close> sends, and
  \<open>totalMessages\<close> is the number of messages its loop was created with. Along every
  continuation of the run, a task that is registered in \<open>s\<close> and still registered at
  the end has a count at least as large, and the same \<open>totalMessages\<close>. If the task's
  loop has ended in \<open>s\<close>, the count at the end is the count in \<open>s\<close>: until the
  task is removed from the registry it does not change again.
\<close>

theorem sentMessages_bounded_monotone:
  assumes "freshIds lo initialServer evs" and "s = run lo initialServer evs"
  shows "(\<forall>tid t. Map_get (activeTasks s) tid = Some t \<longrightarrow>
            sentMessages t \<le> totalMessages t
            \<and> (\<exists>l \<in> set (loops s). loopTaskId l = tid \<and> totalMessages t = length (messages l)))
    \<and> (\<forall>evs' tid t t'. freshIds lo s evs' \<and> Map_get (activeTasks s) tid = Some t
          \<and> Map_get (activeTasks (run lo s evs')) tid = Some t' \<longrightarrow>
            sentMessages t \<le> sentMessages t' \<and> totalMessages t' = totalMessages t)
    \<and> (\<forall>evs' j t t'. freshIds lo s evs' \<and> j < length (loops s)
          \<and> suspendedAt (loops s ! j) = Ended
          \<and> Map_get (activeTasks s) (loopTaskId (loops s ! j)) = Some t
          \<and> Map_get (activeTasks (run lo s evs')) (loopTaskId (loops s ! j)) = Some t' \<longrightarrow>
            sentMessages t' = sentMessages t)"
proof -
  have inv: "taskInv s"
    unfolding assms(2) using taskInv_initial assms(1) by (rule taskInv_run)
  then have d: "distinct (map loopTaskId (loops s))"
    and b: "\<And>j t. j < length (loops s) \<Longrightarrow>
        Map_get (activeTasks s) (loopTaskId (loops s ! j)) = Some t \<Longrightarrow>
        withinMessages (loops s ! j) \<and> totalMessages t = length (messages (loops s ! j))
        \<and> sentMessages t \<le> progress (loops s ! j)"
    and k: "\<And>k t. Map_get (activeTasks s) k = Some t \<Longrightarrow> k \<in> set (map loopTaskId (loops s))"
    unfolding taskInv_alt by blast+
  have bound: "sentMessages t \<le> totalMessages t
      \<and> (\<exists>l \<in> set (loops s). loopTaskId l = tid \<and> totalMessages t = length (messages l))"
    if t: "Map_get (activeTasks s) tid = Some t" for tid t
  proof -
    obtain j where j: "j < length (loops s)" "loopTaskId (loops s ! j) = tid"
      using k [OF t] by (auto simp: in_set_conv_nth)
    have "withinMessages (loops s ! j)" "totalMessages t = length (messages (loops s ! j))"
      "sentMessages t \<le> progress (loops s ! j)"
      using b [OF j(1)] t j(2) by simp_all
    moreover have "progress (loops s ! j) \<le> length (messages (loops s ! j))"
      using \<open>withinMessages (loops s ! j)\<close>
      by (auto simp: progress_def withinMessages_def split: position.splits)
    moreover have "loops s ! j \<in> set (loops s)"
      using j(1) by simp
    ultimately show ?thesis using j(2) by auto
  qed
  have mono: "sentMessages t \<le> sentMessages t' \<and> totalMessages t' = totalMessages t"
    if "freshIds lo s evs'" "Map_get (activeTasks s) tid = Some t"
      "Map_get (activeTasks (run lo s evs')) tid = Some t'" for evs' tid t t'
    using entry_run_back [OF that(1) k [OF that(2)] that(3)] that(2) by auto
  have final: "sentMessages t' = sentMessages t"
    if "freshIds lo s evs'" "j < length (loops s)" "suspendedAt (loops s ! j) = Ended"
      "Map_get (activeTasks s) (loopTaskId (loops s ! j)) = Some t"
      "Map_get (activeTasks (run lo s evs')) (loopTaskId (loops s ! j)) = Some t'"
    for evs' j t t'
  proof -
    have all: "\<forall>i < length (loops s). loopTaskId (loops s ! i) = loopTaskId (loops s ! j) \<longrightarrow>
           suspendedAt (loops s ! i) = Ended"
      using distinct_ids_unique [OF d _ that(2)] that(3) by auto
    have "loopTaskId (loops s ! j) \<in> set (map loopTaskId (loops s))"
      using that(2) by simp
    from ended_run [OF that(1) this all that(5)] show ?thesis using that(4) by auto
  qed
  show ?thesis using bound mono final by blast
qed

theorem sentMessages_bounded_monotone_witness:
  "freshIds 401 initialServer
     [ConnectionUpdate ''perm_1_2'' ''1'' False 7 1
        \<lparr> connection = Open, statusCode = None, qr = None \<rparr>,
      PostSendMessage exampleRequest 5 ''abcde'',
      SendSettled 0 None 6, DelayElapsed 0 7, SendSettled 0 (Some ''timeout'') 8,
      DelayElapsed 0 9]
   \<and> map (\<lambda>e. (sentMessages (snd e), totalMessages (snd e)))
       (activeTasks (run 401 initialServer
     [ConnectionUpdate ''perm_1_2'' ''1'' False 7 1
        \<lparr> connection = Open, statusCode = None, qr = None \<rparr>,
      PostSendMessage exampleRequest 5 ''abcde'',
      SendSettled 0 None 6, DelayElapsed 0 7, SendSettled 0 (Some ''timeout'') 8,
      DelayElapsed 0 9])) = [(1, 2)]
   \<and> map suspendedAt (loops (run 401 initialServer
     [ConnectionUpdate ''perm_1_2'' ''1'' False 7 1
        \<lparr> connection = Open, statusCode = None, qr = None \<rparr>,
      PostSendMessage exampleRequest 5 ''abcde'',
      SendSettled 0 None 6, DelayElapsed 0 7, SendSettled 0 (Some ''timeout'') 8,
      DelayElapsed 0 9])) = [Ended]
   \<and> freshIds 401 (run 401 initialServer
     [ConnectionUpdate ''perm_1_2'' ''1'' False 7 1
        \<lparr> connection = Open, statusCode = None, qr = None \<rparr>,
      PostSendMessage exampleRequest 5 ''abcde'',
      SendSettled 0 None 6, DelayElapsed 0 7, SendSettled 0 (Some ''timeout'') 8,
      DelayElapsed 0 9])
     [PostStopTask (Some (newTaskId 5 ''abcde'')), SendSettled 0 None 10]
   \<and> map (\<lambda>e. (sentMessages (snd e), totalMessages (snd e), stopRequested (snd e)))
       (activeTasks (run 401 (run 401 initialServer
     [ConnectionUpdate ''perm_1_2'' ''1'' False 7 1
        \<lparr> connection = Open, statusCode = None, qr = None \<rparr>,
      PostSendMessage exampleRequest 5 ''abcde'',
      SendSettled 0 None 6, DelayElapsed 0 7, SendSettled 0 (Some ''timeout'') 8,
      DelayElapsed 0 9])
     [PostStopTask (Some (newTaskId 5 ''abcde'')), SendSettled 0 None 10])) = [(1, 2, True)]"
proof -
  have f: "freshIds 401 initialServer
     [ConnectionUpdate ''perm_1_2'' ''1'' False 7 1
        \<lparr> connection = Open, statusCode = None, qr = None \<rparr>,
      PostSendMessage exampleRequest 5 ''abcde'',
      SendSettled 0 None 6, DelayElapsed 0 7, SendSettled 0 (Some ''timeout'') 8,
      DelayElapsed 0 9]"
    by (simp add: evaluate)
  have f': "freshIds 401 (run 401 initialServer
     [ConnectionUpdate ''perm_1_2'' ''1'' False 7 1
        \<lparr> connection = Open, statusCode = None, qr = None \<rparr>,
      PostSendMessage exampleRequest 5 ''abcde'',
      SendSettled 0 None 6, DelayElapsed 0 7, SendSettled 0 (Some ''timeout'') 8,
      DelayElapsed 0 9])
     [PostStopTask (Some (newTaskId 5 ''abcde'')), SendSettled 0 None 10]"
    by simp
  have after: "activeTasks (run 401 (run 401 initialServer
     [ConnectionUpdate ''perm_1_2'' ''1'' False 7 1
        \<lparr> connection = Open, statusCode = None, qr = None \<rparr>,
      PostSendMessage exampleRequest 5 ''abcde'',
      SendSettled 0 None 6, DelayElapsed 0 7, SendSettled 0 (Some ''timeout'') 8,
      DelayElapsed 0 9])
     [PostStopTask (Some (newTaskId 5 ''abcde'')), SendSettled 0 None 10]) =
   [(newTaskId 5 ''abcde'',
           \<lparr> id' = newTaskId 5 ''abcde'', sessionId = ''perm_1_2'', target = ''+91 98'',
             targetJid = ''9198@s.whatsapp.net'', targetType = ''number'', prefix = [],
             totalMessages = 2, sentMessages = 1, isSending = False, stopRequested = True,
             startedAt = 5, lastSentAt = Some 6, endedAt = Some 9 \<rparr>)]"
    unfolding run_append [symmetric] by (simp add: evaluate newTaskId_nonempty)
  from sentMessages_bounded_monotone [OF f refl]
  show ?thesis using f f' exampleRun(1,2) after by simp
qed

subsection \<open>Reconnects\<close>

lemma failing_init_reschedules:
  assumes "Map_get (activeClients s) sid = Some info"
    and "orZero (retryCount info) < MAX_RETRIES"
    and "reconnectTimers s = (sid, ph, origin) # rest"
  shows "activeClients (reconnectTimerFires 0 (Inl err) s) = activeClients s
    \<and> reconnectTimers (reconnectTimerFires 0 (Inl err) s) = rest @ [(sid, ph, AfterInitError)]"
  using assms
  by (simp add: reconnectTimerFires_def initializeClient_def Let_def split: timerOrigin.splits)

lemma failing_init_forever:
  assumes "Map_get (activeClients s) sid = Some info"
    and "orZero (retryCount info) < MAX_RETRIES"
    and "reconnectTimers s = [(sid, ph, origin)]"
  shows "activeClients (run lo s (replicate n (ReconnectTimerFires 0 (Inl err)))) = activeClients s
    \<and> reconnectTimers (run lo s (replicate n (ReconnectTimerFires 0 (Inl err)))) =
        [(sid, ph, if n = 0 then origin else AfterInitError)]"
  using assms
proof (induction n arbitrary: s origin)
  case 0
  then show ?case by simp
next
  case (Suc n)
  let ?s1 = "reconnectTimerFires 0 (Inl err) s"
  have s1: "activeClients ?s1 = activeClients s"
    "reconnectTimers ?s1 = [(sid, ph, AfterInitError)]"
    using failing_init_reschedules [OF Suc.prems(1,2), of ph origin "[]" err] Suc.prems(3)
    by simp_all
  have "activeClients (run lo ?s1 (replicate n (ReconnectTimerFires 0 (Inl err)))) =
          activeClients ?s1
    \<and> reconnectTimers (run lo ?s1 (replicate n (ReconnectTimerFires 0 (Inl err)))) =
        [(sid, ph, if n = 0 then AfterInitError else AfterInitError)]"
    by (rule Suc.IH) (simp_all add: s1 Suc.prems)
  then show ?case by (simp add: s1)
qed

text \<open>
  What holds of the counter on every run: a close with a reconnectable code stores
  the count plus one and schedules one reconnect while the count is below
  \<open>MAX_RETRIES\<close>, and changes neither the registry nor the timers otherwise; no
  entry ever holds a count above \<open>MAX_RETRIES\<close>.
\<close>

lemma close_handler_counts:
  assumes "connection u = Close" and "statusCode u \<noteq> Some loggedOut"
    and "statusCode u \<noteq> Some 401"
  shows "(case Map_get (activeClients s) sid of None \<Rightarrow> emptyObject | Some ci \<Rightarrow> ci) = info \<Longrightarrow>
      orZero (retryCount info) < MAX_RETRIES \<Longrightarrow>
      Map_get (activeClients (onConnectionUpdate loggedOut sid ph r c now u s)) sid =
        Some (info\<lparr> connected := Some False, retryCount := Some (orZero (retryCount info) + 1) \<rparr>)
      \<and> reconnectTimers (onConnectionUpdate loggedOut sid ph r c now u s) =
          reconnectTimers s @ [(sid, ph, AfterClose)]"
    and "(case Map_get (activeClients s) sid of None \<Rightarrow> emptyObject | Some ci \<Rightarrow> ci) = info \<Longrightarrow>
      \<not> orZero (retryCount info) < MAX_RETRIES \<Longrightarrow>
      activeClients (onConnectionUpdate loggedOut sid ph r c now u s) = activeClients s
      \<and> reconnectTimers (onConnectionUpdate loggedOut sid ph r c now u s) = reconnectTimers s"
  using assms by (auto simp: onConnectionUpdate_def Let_def Map_get_set)

lemma iteration_clients: "activeClients (iteration j i now s) = activeClients s"
  by (simp add: iteration_def Let_def finish_effect split: option.splits)

lemma task_events_keep_clients:
  "activeClients (snd (postSendMessage req now suffix s)) = activeClients s"
  "activeClients (snd (postStopTask b s)) = activeClients s"
  "activeClients (sendSettled j r now s) = activeClients s"
  "activeClients (delayElapsed j now s) = activeClients s"
  "activeClients (evictTimerFires n s) = activeClients s"
  by (simp_all add: postSendMessage_def postStopTask_def sendSettled_def delayElapsed_def
      evictTimerFires_def iteration_clients Let_def
      split: list.splits option.splits sum.splits prod.splits position.splits)

lemma initializeClient_entry:
  assumes "Map_get (activeClients (snd (initializeClient sid ph r made s))) k = Some info"
  shows "Map_get (activeClients s) k = Some info \<or> retryCount info = Some 0"
  using assms
  by (auto simp: initializeClient_def Let_def Map_get_set split: sum.splits option.splits if_splits)

lemma step_client_entry:
  assumes "Map_get (activeClients (step lo s e)) k = Some info"
  shows "Map_get (activeClients s) k = Some info \<or> retryCount info = Some 0
    \<or> (\<exists>n < MAX_RETRIES. retryCount info = Some (n + 1))"
proof (cases e)
  case (GetCode q now made sock)
  have "activeClients (snd (getCode q now made sock s)) = activeClients s
    \<or> activeClients (snd (getCode q now made sock s)) =
        activeClients (snd (initializeClient (newSessionId (digitsOnly (orEmpty q)) now)
          (digitsOnly (orEmpty q)) False made s))"
    by (auto simp: getCode_def Let_def split: sum.splits option.splits prod.splits)
  then show ?thesis using assms GetCode initializeClient_entry by fastforce
next
  case (ConnectionUpdate sid ph r c now u)
  then show ?thesis using assms
    by (auto simp: onConnectionUpdate_def Let_def Map_get_set Map_get_delete
        split: connectionState.splits if_splits)
next
  case (ReconnectTimerFires n made)
  obtain sid ph origin where t: "reconnectTimers s ! n = (sid, ph, origin)"
    by (cases "reconnectTimers s ! n") auto
  have "activeClients (reconnectTimerFires n made s) = activeClients s"
    by (auto simp: reconnectTimerFires_def t initializeClient_def Let_def
        split: sum.splits option.splits)
  then show ?thesis using assms ReconnectTimerFires by simp
next
  case (KeepAliveTick outcome)
  then show ?thesis using assms by (simp add: keepAlive_effect)
qed (use assms in \<open>simp_all add: task_events_keep_clients\<close>)

lemma retryCount_bounded:
  "Map_get (activeClients (run lo initialServer evs)) k = Some info \<Longrightarrow>
     orZero (retryCount info) \<le> MAX_RETRIES"
proof (induction evs arbitrary: k info rule: rev_induct)
  case Nil
  then show ?case by (simp add: initialServer_def Map_get_def)
next
  case (snoc e evs)
  then have "Map_get (activeClients (step lo (run lo initialServer evs) e)) k = Some info"
    by (simp add: run_append)
  from step_client_entry [OF this] show ?case
    using snoc.IH by (auto simp: orZero_def)
qed

text \<open>
  Claim C1 fails on the retry path of \<open>initializeClient\<close>. A session is closed with a
  reconnectable code: \<open>retryCount\<close> goes from 3 to 4 and a reconnect is scheduled. The
  re-initialisation then fails 1001 times in a row. Each failure schedules the next
  reconnect, and \<open>retryCount\<close> is still 4 at the end: these reconnects are not counted,
  so \<open>MAX_RETRIES\<close> does not bound them.
\<close>

theorem init_error_retries_uncounted:
  "map (\<lambda>e. retryCount (snd e))
     (activeClients (run 401 exampleSession
        (ConnectionUpdate ''perm_1_2'' ''1'' False 7 100
           \<lparr> connection = Close, statusCode = Some 428, qr = None \<rparr>
         # replicate 1001 (ReconnectTimerFires 0 (Inl ''ECONNREFUSED''))))) = [Some 4]
   \<and> reconnectTimers (run 401 exampleSession
        (ConnectionUpdate ''perm_1_2'' ''1'' False 7 100
           \<lparr> connection = Close, statusCode = Some 428, qr = None \<rparr>
         # replicate 1001 (ReconnectTimerFires 0 (Inl ''ECONNREFUSED'')))) =
       [(''perm_1_2'', ''1'', AfterInitError)]"
proof -
  let ?s1 = "onConnectionUpdate 401 ''perm_1_2'' ''1'' False 7 100
           \<lparr> connection = Close, statusCode = Some 428, qr = None \<rparr> exampleSession"
  have ac: "activeClients ?s1 =
      [(''perm_1_2'', \<lparr> client = Some 7, number = Some ''1'',
             authPath = Some ''sessions/perm_1_2'', connected = Some False,
             lastConnected = Null, retryCount = Some 4 \<rparr>)]"
    and rt: "reconnectTimers ?s1 = [(''perm_1_2'', ''1'', AfterClose)]"
    by (simp_all add: onConnectionUpdate_def exampleSession_def Let_def orEmpty_def orZero_def
        MAX_RETRIES_def Map_get_def Map_set_def)
  have "activeClients (run 401 ?s1 (replicate 1001 (ReconnectTimerFires 0 (Inl ''ECONNREFUSED''))))
          = activeClients ?s1
    \<and> reconnectTimers (run 401 ?s1 (replicate 1001 (ReconnectTimerFires 0 (Inl ''ECONNREFUSED''))))
          = [(''perm_1_2'', ''1'', if (1001::nat) = 0 then AfterClose else AfterInitError)]"
    by (rule failing_init_forever [where info = "snd (hd (activeClients ?s1))"])
      (simp_all add: ac rt Map_get_def orZero_def MAX_RETRIES_def)
  then show ?thesis by (simp add: ac)
qed

end
